theory Spec2Isabelle
  imports Main "HOL-Library.Word"
begin

section \<open>Typed arrays\<close>

text \<open>
  The plugin \<^verbatim>\<open>koishi-plugin-symmetry\<close> (file \<^verbatim>\<open>src/index.tsx\<close>) rebuilds the full frames of
  an animated GIF from its partial patches, mirrors every frame and encodes the result.
  Pixel buffers are \<^verbatim>\<open>Uint8ClampedArray\<close>s: lists of bytes of fixed length. The array
  methods the source calls are modelled with the behaviour ECMAScript gives them for
  non-negative integer arguments:
  \<^item> \<^verbatim>\<open>new Uint8ClampedArray(n)\<close> is \<open>n\<close> zero bytes;
  \<^item> \<^verbatim>\<open>fill(v, start, end)\<close> clamps both bounds to the length and never throws;
  \<^item> \<^verbatim>\<open>subarray(begin, end)\<close> clamps both bounds to the length and never throws;
  \<^item> \<^verbatim>\<open>set(source, offset)\<close> throws a \<^verbatim>\<open>RangeError\<close> when
    \<^verbatim>\<open>source.length + offset > target.length\<close> and copies the whole source otherwise.
  \<^verbatim>\<open>new Uint8ClampedArray(array)\<close> copies its argument; lists are values, so the copy is
  the list itself.
\<close>

type_synonym byte = "8 word"

type_synonym bytes = "byte list"

text \<open>
  The exceptions of the program: the \<^verbatim>\<open>RangeError\<close> of \<^verbatim>\<open>set\<close>, the
  \<^verbatim>\<open>Error("invalid image size")\<close> of \<^verbatim>\<open>getImageSize\<close>, and a failure of the image
  loader.
\<close>

datatype error = RangeError | InvalidImageSize | LoadError

definition ta_new :: "nat \<Rightarrow> bytes" where
  "ta_new n = replicate n 0"

definition ta_fill :: "bytes \<Rightarrow> byte \<Rightarrow> nat \<Rightarrow> nat \<Rightarrow> bytes" where
  "ta_fill target v start fin =
     map (\<lambda>i. if start \<le> i \<and> i < fin then v else target ! i) [0..<length target]"

definition ta_subarray :: "bytes \<Rightarrow> nat \<Rightarrow> nat \<Rightarrow> bytes" where
  "ta_subarray arr begin fin = take (fin - begin) (drop begin arr)"

definition ta_set :: "bytes \<Rightarrow> bytes \<Rightarrow> nat \<Rightarrow> error + bytes" where
  "ta_set target source offset =
     (if length source + offset > length target then Inl RangeError
      else Inr (map (\<lambda>i. if offset \<le> i \<and> i < offset + length source
                          then source ! (i - offset) else target ! i)
                    [0..<length target]))"

section \<open>Decoded frames\<close>

text \<open>
  \<^verbatim>\<open>FrameDims\<close> and \<^verbatim>\<open>DecodedFrame\<close> (lines 12-18). The numbers come from the GIF
  decoder, which reads them from unsigned 16-bit fields, so the rectangle is four naturals;
  the delay is an integer. The field \<^verbatim>\<open>top\<close> is written \<open>top'\<close>.
  \<^verbatim>\<open>disposalType\<close> is optional in the source: \<open>None\<close> is \<^verbatim>\<open>undefined\<close>.
\<close>

record FrameDims =
  left :: nat
  top' :: nat
  width :: nat
  height :: nat

record DecodedFrame =
  delay :: int
  disposalType :: "nat option"
  dims :: FrameDims
  patch :: bytes

text \<open>
An element of \<^verbatim>\<open>fullFrames\<close> (line 287): \<^verbatim>\<open>{ data, delay }\<close>.
\<close>

record FullFrame =
  data :: bytes
  fdelay :: int

section \<open>Clearing and patching a rectangle\<close>

text \<open>
  Byte offset of the start of row \<open>y\<close> of a rectangle in a canvas \<open>w\<close> pixels wide: the
  expression \<^verbatim>\<open>((dims.top + y) * width + dims.left) * 4\<close> of lines 262 and 276.
\<close>

definition rowOffset :: "FrameDims \<Rightarrow> nat \<Rightarrow> nat \<Rightarrow> nat" where
  "rowOffset d w y = ((top' d + y) * w + left d) * 4"

text \<open>
  \<^verbatim>\<open>clearRectPixels\<close> (lines 256-265). \<open>clearRows y\<close> is the \<^verbatim>\<open>for\<close> loop from row
  \<open>y\<close> on.
\<close>

function clearRows :: "nat \<Rightarrow> bytes \<Rightarrow> FrameDims \<Rightarrow> nat \<Rightarrow> bytes" where
  "clearRows y target d w =
     (if y < height d then
        (let offset = ((top' d + y) * w + left d) * 4
         in clearRows (Suc y) (ta_fill target 0 offset (offset + width d * 4)) d w)
      else target)"
  by pat_completeness auto
termination
  by (relation "measure (\<lambda>(y, target, d, w). height d - y)") auto

definition clearRectPixels :: "bytes \<Rightarrow> FrameDims \<Rightarrow> nat \<Rightarrow> bytes" where
  "clearRectPixels target d w = clearRows 0 target d w"

text \<open>
  \<^verbatim>\<open>applyPatch\<close> (lines 267-279). \<open>patchRows y\<close> is the \<^verbatim>\<open>for\<close> loop from row \<open>y\<close>
  on; a \<^verbatim>\<open>RangeError\<close> of \<^verbatim>\<open>set\<close> leaves the loop.
\<close>

function patchRows :: "nat \<Rightarrow> bytes \<Rightarrow> bytes \<Rightarrow> FrameDims \<Rightarrow> nat \<Rightarrow> error + bytes" where
  "patchRows y target p d w =
     (if y < height d then
        (let rowSize = width d * 4;
             srcOffset = y * rowSize;
             destOffset = ((top' d + y) * w + left d) * 4
         in case ta_set target (ta_subarray p srcOffset (srcOffset + rowSize)) destOffset of
              Inl e \<Rightarrow> Inl e
            | Inr target' \<Rightarrow> patchRows (Suc y) target' p d w)
      else Inr target)"
  by pat_completeness auto
termination
  by (relation "measure (\<lambda>(y, target, p, d, w). height d - y)") auto

definition applyPatch :: "bytes \<Rightarrow> bytes \<Rightarrow> FrameDims \<Rightarrow> nat \<Rightarrow> error + bytes" where
  "applyPatch target p d w = patchRows 0 target p d w"

section \<open>The frame reconstructor\<close>

text \<open>
  \<^verbatim>\<open>buildFullFrames\<close> (lines 281-321). \<open>CanvasState\<close> holds the variables that live across
  the iterations of its loop: \<^verbatim>\<open>canvas\<close>, \<^verbatim>\<open>fullFrames\<close>, \<^verbatim>\<open>prevDisposal\<close>,
  \<^verbatim>\<open>prevRect\<close> and \<^verbatim>\<open>restoreSnapshot\<close> (lines 286-290).
\<close>

record CanvasState =
  canvas :: bytes
  fullFrames :: "FullFrame list"
  prevDisposal :: nat
  prevRect :: "FrameDims option"
  restoreSnapshot :: "bytes option"

definition initState :: "nat \<Rightarrow> nat \<Rightarrow> CanvasState" where
  "initState w h =
     \<lparr>canvas = ta_new (w * h * 4), fullFrames = [], prevDisposal = 0,
      prevRect = None, restoreSnapshot = None\<rparr>"

text \<open>
The disposal of the previous frame, applied at the top of an iteration (lines 297-301).
\<close>

definition applyDisposal :: "nat \<Rightarrow> CanvasState \<Rightarrow> error + bytes" where
  "applyDisposal w st =
     (case (prevDisposal st = 2, prevRect st) of
        (True, Some r) \<Rightarrow> Inr (clearRectPixels (canvas st) r w)
      | _ \<Rightarrow>
        (case (prevDisposal st = 3, restoreSnapshot st) of
           (True, Some snap) \<Rightarrow> ta_set (canvas st) snap 0
         | _ \<Rightarrow> Inr (canvas st)))"

text \<open>
Drawing the patch: the whole canvas at once, or row by row (lines 308-312).
\<close>

definition composite :: "bytes \<Rightarrow> bytes \<Rightarrow> FrameDims \<Rightarrow> nat \<Rightarrow> nat \<Rightarrow> error + bytes" where
  "composite cv p d w h =
     (if length p = w * h * 4 then ta_set cv p 0 else applyPatch cv p d w)"

text \<open>
  One iteration of the loop (lines 292-318): dispose, take the snapshot if this frame asks
  for it (lines 303-306), draw, push a copy of the canvas with the frame's delay (line 314),
  and carry the frame's disposal, rectangle and snapshot forward (lines 315-317).
\<close>

definition frameStep :: "nat \<Rightarrow> nat \<Rightarrow> CanvasState \<Rightarrow> DecodedFrame \<Rightarrow> error + CanvasState" where
  "frameStep w h st frame =
     (case applyDisposal w st of
        Inl e \<Rightarrow> Inl e
      | Inr c1 \<Rightarrow>
        (let nextRestore = (if disposalType frame = Some 3 then Some c1 else None)
         in case composite c1 (patch frame) (dims frame) w h of
              Inl e \<Rightarrow> Inl e
            | Inr c2 \<Rightarrow>
                Inr \<lparr>canvas = c2,
                     fullFrames = fullFrames st @ [\<lparr>data = c2, fdelay = delay frame\<rparr>],
                     prevDisposal = (case disposalType frame of None \<Rightarrow> 0 | Some k \<Rightarrow> k),
                     prevRect = Some (dims frame),
                     restoreSnapshot = nextRestore\<rparr>))"

fun frameLoop :: "nat \<Rightarrow> nat \<Rightarrow> CanvasState \<Rightarrow> DecodedFrame list \<Rightarrow> error + CanvasState" where
  "frameLoop w h st [] = Inr st"
| "frameLoop w h st (frame # frames) =
     (case frameStep w h st frame of
        Inl e \<Rightarrow> Inl e
      | Inr st' \<Rightarrow> frameLoop w h st' frames)"

definition buildFullFrames :: "DecodedFrame list \<Rightarrow> nat \<Rightarrow> nat \<Rightarrow> error + FullFrame list" where
  "buildFullFrames frames w h =
     (case frameLoop w h (initState w h) frames of
        Inl e \<Rightarrow> Inl e
      | Inr st \<Rightarrow> Inr (fullFrames st))"

text \<open>
  The canvas as the disposal step leaves it for the patch that would follow \<open>frames\<close>:
  the state of the canvas immediately before that patch is drawn.
\<close>

definition pendingCanvas :: "nat \<Rightarrow> nat \<Rightarrow> DecodedFrame list \<Rightarrow> error + bytes" where
  "pendingCanvas w h frames =
     (case frameLoop w h (initState w h) frames of
        Inl e \<Rightarrow> Inl e
      | Inr st \<Rightarrow> applyDisposal w st)"

section \<open>Notions used to state the properties\<close>

text \<open>
  Membership of pixel \<open>(x, y)\<close> in a rectangle, and the index of byte \<open>k\<close> of pixel
  \<open>(x, y)\<close> in a canvas \<open>w\<close> pixels wide.
\<close>

definition inRect :: "FrameDims \<Rightarrow> nat \<Rightarrow> nat \<Rightarrow> bool" where
  "inRect d x y = (left d \<le> x \<and> x < left d + width d \<and> top' d \<le> y \<and> y < top' d + height d)"

definition pixelByte :: "nat \<Rightarrow> nat \<Rightarrow> nat \<Rightarrow> nat \<Rightarrow> nat" where
  "pixelByte w x y k = (y * w + x) * 4 + k"

text \<open>
The buffers of a state have the size of the canvas.
\<close>

definition stateInv :: "nat \<Rightarrow> nat \<Rightarrow> CanvasState \<Rightarrow> bool" where
  "stateInv w h st =
     (length (canvas st) = w * h * 4 \<and>
      (case restoreSnapshot st of None \<Rightarrow> True | Some s \<Rightarrow> length s = w * h * 4))"

text \<open>
Every emitted frame holds \<open>n\<close> bytes.
\<close>

definition framesSized :: "nat \<Rightarrow> FullFrame list \<Rightarrow> bool" where
  "framesSized n ffs = list_all (\<lambda>ff. length (data ff) = n) ffs"

text \<open>
  Row \<open>y\<close> of a patch fits a buffer of \<open>n\<close> bytes: the destination offset plus the bytes
  that \<^verbatim>\<open>subarray\<close> yields for the row do not pass the end, which is when \<^verbatim>\<open>set\<close>
  does not throw. A frame overflows when it is drawn row by row and some row does not fit.
\<close>

definition rowFits :: "bytes \<Rightarrow> FrameDims \<Rightarrow> nat \<Rightarrow> nat \<Rightarrow> nat \<Rightarrow> bool" where
  "rowFits p d w n y =
     (rowOffset d w y +
      length (ta_subarray p (y * (width d * 4)) (y * (width d * 4) + width d * 4)) \<le> n)"

definition rowOverflows :: "nat \<Rightarrow> nat \<Rightarrow> DecodedFrame \<Rightarrow> bool" where
  "rowOverflows w h f =
     (length (patch f) \<noteq> w * h * 4 \<and>
      list_ex (\<lambda>y. w * h * 4 <
                  rowOffset (dims f) w y +
                  length (ta_subarray (patch f) (y * (width (dims f) * 4))
                            (y * (width (dims f) * 4) + width (dims f) * 4)))
        [0..<height (dims f)])"

text \<open>
  A snapshot held after patch \<open>g\<close> was taken for \<open>g\<close> itself, from the canvas as it was
  immediately before \<open>g\<close> was drawn (\<open>before\<close> are the patches that precede \<open>g\<close>).
\<close>

definition heldSnapshotFresh :: "nat \<Rightarrow> nat \<Rightarrow> DecodedFrame list \<Rightarrow> DecodedFrame \<Rightarrow> CanvasState \<Rightarrow> bool" where
  "heldSnapshotFresh w h before g st =
     (case restoreSnapshot st of
        None \<Rightarrow> True
      | Some s \<Rightarrow> disposalType g = Some 3 \<and> pendingCanvas w h before = Inr s)"

(*LEMMAS*)

section \<open>The drawing surface\<close>

text \<open>
  Modelled from the spec: the 2D drawing surface (\<^verbatim>\<open>ctx.canvas\<close>, the calls
  \<^verbatim>\<open>createCanvas\<close>, \<^verbatim>\<open>clearRect\<close>, \<^verbatim>\<open>drawImage\<close>, \<^verbatim>\<open>putImageData\<close>) is a service the
  plugin injects; its code is not part of the sources. A surface is a row-major list of
  pixels. The pixel type and the compositing operator of the surface (\<open>over src dst\<close>, the
  result of painting \<open>src\<close> on \<open>dst\<close>) are parameters, as is the transparent pixel.
\<close>

record 'p Surface =
  s_width :: nat
  s_height :: nat
  pixels :: "'p list"

record 'p Backend =
  over :: "'p \<Rightarrow> 'p \<Rightarrow> 'p"
  transparent :: 'p

definition pixelAt :: "'p Surface \<Rightarrow> nat \<Rightarrow> nat \<Rightarrow> 'p" where
  "pixelAt s x y = pixels s ! (y * s_width s + x)"

definition createCanvas :: "'p Backend \<Rightarrow> nat \<Rightarrow> nat \<Rightarrow> 'p Surface" where
  "createCanvas be w h =
     \<lparr>s_width = w, s_height = h, pixels = replicate (w * h) (transparent be)\<rparr>"

text \<open>
  Modelled from the spec: \<^verbatim>\<open>drawImage(source, sx, sy, sw, sh, dx, dy, dw, dh)\<close> paints the
  source rectangle on the destination rectangle with corners \<open>(dx, dy)\<close> and
  \<open>(dx + dw, dy + dh)\<close>; a negative extent reflects the image along that axis, which is
  what \<^verbatim>\<open>drawSymmetry\<close> passes it for. A destination pixel is covered when its column and
  row lie in the destination spans; it takes the source pixel under its centre
  (\<open>sample\<close>, nearest neighbour), painted with \<open>over\<close>. At the scale factors \<open>1\<close> and
  \<open>-1\<close>, the only ones \<^verbatim>\<open>drawSymmetry\<close> uses, the sampled pixel is the exact copy or the
  exact mirror image. \<^verbatim>\<open>clearRect\<close> makes the pixels of its rectangle transparent.
\<close>

definition inSpan :: "int \<Rightarrow> int \<Rightarrow> int \<Rightarrow> bool" where
  "inSpan d len x = (min d (d + len) \<le> x \<and> x < max d (d + len))"

definition sample :: "int \<Rightarrow> int \<Rightarrow> int \<Rightarrow> int \<Rightarrow> int \<Rightarrow> int" where
  "sample s slen d dlen x = s + ((2 * (x - d) + 1) * slen) div (2 * dlen)"

definition clearRect :: "'p Backend \<Rightarrow> 'p Surface \<Rightarrow> int \<Rightarrow> int \<Rightarrow> int \<Rightarrow> int \<Rightarrow> 'p Surface" where
  "clearRect be ctx x y w h =
     ctx\<lparr>pixels :=
       map (\<lambda>i. if inSpan x w (int (i mod s_width ctx)) \<and> inSpan y h (int (i div s_width ctx))
                 then transparent be else pixels ctx ! i)
         [0..<length (pixels ctx)]\<rparr>"

definition drawImage ::
  "'p Backend \<Rightarrow> 'p Surface \<Rightarrow> 'p Surface \<Rightarrow> int \<Rightarrow> int \<Rightarrow> int \<Rightarrow> int \<Rightarrow>
     int \<Rightarrow> int \<Rightarrow> int \<Rightarrow> int \<Rightarrow> 'p Surface" where
  "drawImage be ctx source sx sy sw sh dx dy dw dh =
     (if sw = 0 \<or> sh = 0 \<or> dw = 0 \<or> dh = 0 then ctx
      else ctx\<lparr>pixels :=
        map (\<lambda>i.
          (let x = int (i mod s_width ctx); y = int (i div s_width ctx);
               u = sample sx sw dx dw x; v = sample sy sh dy dh y
           in if inSpan dx dw x \<and> inSpan dy dh y \<and>
                 0 \<le> u \<and> u < int (s_width source) \<and> 0 \<le> v \<and> v < int (s_height source)
              then over be (pixels source ! (nat v * s_width source + nat u)) (pixels ctx ! i)
              else pixels ctx ! i))
          [0..<length (pixels ctx)]\<rparr>)"

section \<open>The mirror\<close>

text \<open>
\<^verbatim>\<open>Direction\<close> (line 11) and \<^verbatim>\<open>Math.ceil(n / 2)\<close> on a natural number.
\<close>

datatype Direction = Left | Right | Up | Down | Both

definition ceilHalf :: "nat \<Rightarrow> nat" where
  "ceilHalf n = (n + 1) div 2"

text \<open>
\<^verbatim>\<open>drawSymmetry\<close> (lines 106-241), call by call.
\<close>

definition drawSymmetry ::
  "'p Backend \<Rightarrow> 'p Surface \<Rightarrow> 'p Surface \<Rightarrow> nat \<Rightarrow> nat \<Rightarrow> Direction \<Rightarrow> 'p Surface" where
  "drawSymmetry be canvasCtx source w h direction =
     (let c0 = clearRect be canvasCtx 0 0 (int w) (int h)
      in case direction of
        Left \<Rightarrow>
          (let baseWidth = int (ceilHalf w);
               c1 = drawImage be c0 source 0 0 baseWidth (int h) 0 0 baseWidth (int h)
           in drawImage be c1 source 0 0 baseWidth (int h) (int w) 0 (- baseWidth) (int h))
      | Right \<Rightarrow>
          (let baseWidth = int (ceilHalf w);
               srcX = int w - baseWidth;
               c1 = drawImage be c0 source srcX 0 baseWidth (int h) srcX 0 baseWidth (int h)
           in drawImage be c1 source srcX 0 baseWidth (int h) baseWidth 0 (- baseWidth) (int h))
      | Up \<Rightarrow>
          (let baseHeight = int (ceilHalf h);
               c1 = drawImage be c0 source 0 0 (int w) baseHeight 0 0 (int w) baseHeight
           in drawImage be c1 source 0 0 (int w) baseHeight 0 (int h) (int w) (- baseHeight))
      | Down \<Rightarrow>
          (let baseHeight = int (ceilHalf h);
               srcY = int h - baseHeight;
               c1 = drawImage be c0 source 0 srcY (int w) baseHeight 0 srcY (int w) baseHeight
           in drawImage be c1 source 0 srcY (int w) baseHeight 0 baseHeight (int w) (- baseHeight))
      | Both \<Rightarrow>
          (let baseWidth = int (ceilHalf w);
               baseHeight = int (ceilHalf h);
               c1 = drawImage be c0 source 0 0 baseWidth baseHeight 0 0 baseWidth baseHeight;
               c2 = drawImage be c1 source 0 0 baseWidth baseHeight (int w) 0 (- baseWidth) baseHeight;
               c3 = drawImage be c2 source 0 0 baseWidth baseHeight 0 (int h) baseWidth (- baseHeight)
           in drawImage be c3 source 0 0 baseWidth baseHeight (int w) (int h)
                (- baseWidth) (- baseHeight)))"

section \<open>The animation pipeline\<close>

text \<open>
  Modelled from the spec: the animated-image writer (\<^verbatim>\<open>gif-encoder-2\<close>) is an external
  package. It is modelled as the record of what it is given: \<^verbatim>\<open>setDelay\<close> stores the delay,
  \<^verbatim>\<open>addFrame\<close> appends the pixels of the surface with the stored delay.
\<close>

record 'p GIFEncoder =
  enc_width :: nat
  enc_height :: nat
  enc_repeat :: int
  enc_quality :: int
  enc_delay :: int
  written :: "('p list \<times> int) list"

definition newEncoder :: "nat \<Rightarrow> nat \<Rightarrow> 'p GIFEncoder" where
  "newEncoder w h =
     \<lparr>enc_width = w, enc_height = h, enc_repeat = - 1, enc_quality = 10, enc_delay = 0,
      written = []\<rparr>"

definition setRepeat :: "'p GIFEncoder \<Rightarrow> int \<Rightarrow> 'p GIFEncoder" where
  "setRepeat e n = e\<lparr>enc_repeat := n\<rparr>"

definition setQuality :: "'p GIFEncoder \<Rightarrow> int \<Rightarrow> 'p GIFEncoder" where
  "setQuality e q = e\<lparr>enc_quality := q\<rparr>"

definition setDelay :: "'p GIFEncoder \<Rightarrow> int \<Rightarrow> 'p GIFEncoder" where
  "setDelay e ms = e\<lparr>enc_delay := ms\<rparr>"

definition addFrame :: "'p GIFEncoder \<Rightarrow> 'p Surface \<Rightarrow> 'p GIFEncoder" where
  "addFrame e ctx = e\<lparr>written := written e @ [(pixels ctx, enc_delay e)]\<rparr>"

text \<open>
  Modelled from the spec: \<^verbatim>\<open>putImageData(imageData, 0, 0)\<close> on a surface of the size of the
  image data replaces its pixels by the image data, four bytes to a pixel.
\<close>

fun rgba :: "bytes \<Rightarrow> bytes list" where
  "rgba (r # g # b # a # rest) = [r, g, b, a] # rgba rest"
| "rgba rest = []"

definition putImageData :: "bytes Surface \<Rightarrow> bytes \<Rightarrow> bytes Surface" where
  "putImageData ctx imageData = ctx\<lparr>pixels := rgba imageData\<rparr>"

text \<open>
  \<^verbatim>\<open>Math.max(0, Math.round((frame.delay || 0) * 10))\<close> (line 353); the delay is an integer,
  on which \<^verbatim>\<open>Math.round\<close> is the identity.
\<close>

definition delayMs :: "int \<Rightarrow> int" where
  "delayMs d = max 0 ((if d = 0 then 0 else d) * 10)"

text \<open>
  \<^verbatim>\<open>generateGif\<close> (lines 323-360) from the decoded frames on: the image data, the two
  canvases and the encoder are the state of its loop (lines 348-356).
\<close>

record GifState =
  imageData :: bytes
  frameCanvas :: "bytes Surface"
  outputCanvas :: "bytes Surface"
  encoder :: "bytes GIFEncoder"

definition encodeFrame ::
  "bytes Backend \<Rightarrow> nat \<Rightarrow> nat \<Rightarrow> Direction \<Rightarrow> GifState \<Rightarrow> FullFrame \<Rightarrow> error + GifState" where
  "encodeFrame be w h direction st frame =
     (case ta_set (imageData st) (data frame) 0 of
        Inl e \<Rightarrow> Inl e
      | Inr img \<Rightarrow>
          (let fc = putImageData (frameCanvas st) img;
               oc = drawSymmetry be (outputCanvas st) fc w h direction;
               enc = addFrame (setDelay (encoder st) (delayMs (fdelay frame))) oc
           in Inr \<lparr>imageData = img, frameCanvas = fc, outputCanvas = oc, encoder = enc\<rparr>))"

fun encodeLoop ::
  "bytes Backend \<Rightarrow> nat \<Rightarrow> nat \<Rightarrow> Direction \<Rightarrow> GifState \<Rightarrow> FullFrame list \<Rightarrow> error + GifState" where
  "encodeLoop be w h direction st [] = Inr st"
| "encodeLoop be w h direction st (frame # frames) =
     (case encodeFrame be w h direction st frame of
        Inl e \<Rightarrow> Inl e
      | Inr st' \<Rightarrow> encodeLoop be w h direction st' frames)"

definition generateGif ::
  "bytes Backend \<Rightarrow> nat \<Rightarrow> nat \<Rightarrow> DecodedFrame list \<Rightarrow> Direction \<Rightarrow> error + bytes GIFEncoder" where
  "generateGif be w h frames direction =
     (case buildFullFrames frames w h of
        Inl e \<Rightarrow> Inl e
      | Inr ffs \<Rightarrow>
          (let enc = setQuality (setRepeat (newEncoder w h) 0) 10;
               st0 = \<lparr>imageData = ta_new (w * h * 4), frameCanvas = createCanvas be w h,
                      outputCanvas = createCanvas be w h, encoder = enc\<rparr>
           in case encodeLoop be w h direction st0 ffs of
                Inl e \<Rightarrow> Inl e
              | Inr st \<Rightarrow> Inr (encoder st)))"

text \<open>
What the writer is expected to receive for a full frame: its mirror image and its delay in milliseconds.
\<close>

definition mirroredFrame :: "bytes Backend \<Rightarrow> nat \<Rightarrow> nat \<Rightarrow> Direction \<Rightarrow> FullFrame \<Rightarrow> bytes list \<times> int" where
  "mirroredFrame be w h direction ff =
     (pixels (drawSymmetry be (createCanvas be w h)
                \<lparr>s_width = w, s_height = h, pixels = rgba (data ff)\<rparr> w h direction),
      max 0 (fdelay ff * 10))"

section \<open>The static pipeline\<close>

text \<open>
  The argument of \<^verbatim>\<open>getImageSize\<close> (lines 46-51) has four optional sizes; \<open>bitmap\<close> is
  what \<^verbatim>\<open>drawImage\<close> reads from the image. \<open>decodedWidth\<close> is
  \<^verbatim>\<open>image.naturalWidth ?? image.width ?? 0\<close> (line 52), \<open>decodedHeight\<close> is line 53.
\<close>

record 'p Image =
  naturalWidth :: "nat option"
  naturalHeight :: "nat option"
  img_width :: "nat option"
  img_height :: "nat option"
  bitmap :: "'p Surface"

definition decodedWidth :: "'p Image \<Rightarrow> nat" where
  "decodedWidth im =
     (case naturalWidth im of Some n \<Rightarrow> n
      | None \<Rightarrow> (case img_width im of Some n \<Rightarrow> n | None \<Rightarrow> 0))"

definition decodedHeight :: "'p Image \<Rightarrow> nat" where
  "decodedHeight im =
     (case naturalHeight im of Some n \<Rightarrow> n
      | None \<Rightarrow> (case img_height im of Some n \<Rightarrow> n | None \<Rightarrow> 0))"

text \<open>
\<^verbatim>\<open>getImageSize\<close> (lines 46-56).
\<close>

definition getImageSize :: "'p Image \<Rightarrow> error + nat \<times> nat" where
  "getImageSize im =
     (let w = decodedWidth im; h = decodedHeight im
      in if w = 0 \<or> h = 0 then Inl InvalidImageSize else Inr (w, h))"

text \<open>
  \<^verbatim>\<open>generateStatic\<close> (lines 243-254) from the result of the loader on. The first component
  of its result lists the steps it has run: loading, canvas creation, mirroring, encoding.
\<close>

datatype Call = LoadImage | CreateCanvas nat nat | DrawSymmetry Direction | ToBuffer

definition generateStatic ::
  "'p Backend \<Rightarrow> error + 'p Image \<Rightarrow> Direction \<Rightarrow> Call list \<times> (error + 'p Surface)" where
  "generateStatic be loaded direction =
     (case loaded of
        Inl e \<Rightarrow> ([LoadImage], Inl e)
      | Inr im \<Rightarrow>
          (case getImageSize im of
             Inl e \<Rightarrow> ([LoadImage], Inl e)
           | Inr (w, h) \<Rightarrow>
               (let cv = createCanvas be w h;
                    out = drawSymmetry be cv (bitmap im) w h direction
                in ([LoadImage, CreateCanvas w h, DrawSymmetry direction, ToBuffer], Inr out))))"

section \<open>Concrete inputs\<close>

text \<open>
  Frames, states and images at which the theorems below are instantiated. \<open>frameRed\<close>
  and \<open>frameBlue\<close> are a full 2 x 2 red frame followed by a blue pixel at \<open>(1, 1)\<close> that
  asks for its region to be cleared; \<open>stateRed\<close> and \<open>stateRedBlue\<close> are the states after
  them. \<open>frameA\<close> asks to be restored to the previous canvas, \<open>frameB\<close> does not dispose.
\<close>

definition px1 :: FrameDims where
  "px1 = \<lparr>left = 0, top' = 0, width = 1, height = 1\<rparr>"

definition px11 :: FrameDims where
  "px11 = \<lparr>left = 1, top' = 1, width = 1, height = 1\<rparr>"

definition frameRed :: DecodedFrame where
  "frameRed = \<lparr>delay = 5, disposalType = Some 0, dims = \<lparr>left = 0, top' = 0, width = 2, height = 2\<rparr>,
     patch = [255, 0, 0, 255, 255, 0, 0, 255, 255, 0, 0, 255, 255, 0, 0, 255]\<rparr>"

definition frameBlue :: DecodedFrame where
  "frameBlue = \<lparr>delay = 3, disposalType = Some 2, dims = px11, patch = [0, 0, 255, 255]\<rparr>"

definition stateRed :: CanvasState where
  "stateRed =
     \<lparr>canvas = [255, 0, 0, 255, 255, 0, 0, 255, 255, 0, 0, 255, 255, 0, 0, 255],
      fullFrames = [\<lparr>data = [255, 0, 0, 255, 255, 0, 0, 255, 255, 0, 0, 255, 255, 0, 0, 255],
                     fdelay = 5\<rparr>],
      prevDisposal = 0,
      prevRect = Some \<lparr>left = 0, top' = 0, width = 2, height = 2\<rparr>,
      restoreSnapshot = None\<rparr>"

definition stateRedBlue :: CanvasState where
  "stateRedBlue =
     \<lparr>canvas = [255, 0, 0, 255, 255, 0, 0, 255, 255, 0, 0, 255, 0, 0, 255, 255],
      fullFrames = [\<lparr>data = [255, 0, 0, 255, 255, 0, 0, 255, 255, 0, 0, 255, 255, 0, 0, 255],
                     fdelay = 5\<rparr>,
                    \<lparr>data = [255, 0, 0, 255, 255, 0, 0, 255, 255, 0, 0, 255, 0, 0, 255, 255],
                     fdelay = 3\<rparr>],
      prevDisposal = 2,
      prevRect = Some px11,
      restoreSnapshot = None\<rparr>"

definition frameA :: DecodedFrame where
  "frameA = \<lparr>delay = 5, disposalType = Some 3, dims = px1, patch = [1, 1, 1, 255]\<rparr>"

definition frameB :: DecodedFrame where
  "frameB = \<lparr>delay = 5, disposalType = Some 1, dims = px1, patch = [2, 2, 2, 255]\<rparr>"

definition stateA :: CanvasState where
  "stateA =
     \<lparr>canvas = [1, 1, 1, 255],
      fullFrames = [\<lparr>data = [1, 1, 1, 255], fdelay = 5\<rparr>],
      prevDisposal = 3,
      prevRect = Some px1,
      restoreSnapshot = Some [0, 0, 0, 0]\<rparr>"

definition stateAB :: CanvasState where
  "stateAB =
     \<lparr>canvas = [2, 2, 2, 255],
      fullFrames = [\<lparr>data = [1, 1, 1, 255], fdelay = 5\<rparr>, \<lparr>data = [2, 2, 2, 255], fdelay = 5\<rparr>],
      prevDisposal = 1,
      prevRect = Some px1,
      restoreSnapshot = None\<rparr>"

definition stateABA :: CanvasState where
  "stateABA =
     \<lparr>canvas = [1, 1, 1, 255],
      fullFrames = [\<lparr>data = [1, 1, 1, 255], fdelay = 5\<rparr>, \<lparr>data = [2, 2, 2, 255], fdelay = 5\<rparr>,
                    \<lparr>data = [1, 1, 1, 255], fdelay = 5\<rparr>],
      prevDisposal = 3,
      prevRect = Some px1,
      restoreSnapshot = Some [2, 2, 2, 255]\<rparr>"

definition frameU :: DecodedFrame where
  "frameU = \<lparr>delay = 7, disposalType = None, dims = px1, patch = [9, 9, 9, 255]\<rparr>"

definition stateU :: CanvasState where
  "stateU =
     \<lparr>canvas = [9, 9, 9, 255],
      fullFrames = [\<lparr>data = [9, 9, 9, 255], fdelay = 7\<rparr>],
      prevDisposal = 0,
      prevRect = Some px1,
      restoreSnapshot = None\<rparr>"

definition frameNeg :: DecodedFrame where
  "frameNeg = \<lparr>delay = - 2, disposalType = Some 1, dims = px1, patch = [3, 3, 3, 255]\<rparr>"

text \<open>
  Inputs outside the data model: an empty canvas, a patch of three bytes, a rectangle that
  passes the right edge, and a rectangle below the canvas.
\<close>

definition frameEmpty :: DecodedFrame where
  "frameEmpty = \<lparr>delay = 4, disposalType = Some 0,
     dims = \<lparr>left = 0, top' = 0, width = 0, height = 0\<rparr>, patch = []\<rparr>"

definition frameShort :: DecodedFrame where
  "frameShort = \<lparr>delay = 4, disposalType = Some 0, dims = px1, patch = [7, 7, 7]\<rparr>"

definition frameWide :: DecodedFrame where
  "frameWide = \<lparr>delay = 4, disposalType = Some 0,
     dims = \<lparr>left = 1, top' = 0, width = 2, height = 1\<rparr>,
     patch = [1, 1, 1, 255, 2, 2, 2, 255]\<rparr>"

definition frameBelow :: DecodedFrame where
  "frameBelow = \<lparr>delay = 4, disposalType = Some 0,
     dims = \<lparr>left = 0, top' = 2, width = 1, height = 1\<rparr>,
     patch = [1, 1, 1, 255]\<rparr>"

text \<open>
  A patch whose rectangle passes the right edge and asks for its region to be cleared, with
  the state after it on a red 2 x 2 canvas; and a patch of 2 x 2 pixels for a canvas one
  pixel wide.
\<close>

definition frameWideClear :: DecodedFrame where
  "frameWideClear = \<lparr>delay = 4, disposalType = Some 2,
     dims = \<lparr>left = 1, top' = 0, width = 2, height = 1\<rparr>,
     patch = [1, 1, 1, 255, 2, 2, 2, 255]\<rparr>"

definition stateWideClear :: CanvasState where
  "stateWideClear =
     \<lparr>canvas = [255, 0, 0, 255, 1, 1, 1, 255, 2, 2, 2, 255, 255, 0, 0, 255],
      fullFrames = [\<lparr>data = [255, 0, 0, 255, 255, 0, 0, 255, 255, 0, 0, 255, 255, 0, 0, 255],
                     fdelay = 5\<rparr>,
                    \<lparr>data = [255, 0, 0, 255, 1, 1, 1, 255, 2, 2, 2, 255, 255, 0, 0, 255],
                     fdelay = 4\<rparr>],
      prevDisposal = 2,
      prevRect = Some \<lparr>left = 1, top' = 0, width = 2, height = 1\<rparr>,
      restoreSnapshot = None\<rparr>"

definition frameTall :: DecodedFrame where
  "frameTall = \<lparr>delay = 4, disposalType = Some 0,
     dims = \<lparr>left = 0, top' = 0, width = 2, height = 2\<rparr>,
     patch = [1, 1, 1, 255, 2, 2, 2, 255, 3, 3, 3, 255, 4, 4, 4, 255]\<rparr>"

text \<open>
Surfaces of opaque pixels (painting replaces the destination), and images.
\<close>

definition opaque :: "nat Backend" where
  "opaque = \<lparr>over = (\<lambda>s d. s), transparent = 0\<rparr>"

definition opaqueBytes :: "bytes Backend" where
  "opaqueBytes = \<lparr>over = (\<lambda>s d. s), transparent = [0, 0, 0, 0]\<rparr>"

definition row3 :: "nat Surface" where
  "row3 = \<lparr>s_width = 3, s_height = 1, pixels = [1, 2, 3]\<rparr>"

definition grid :: "nat Surface" where
  "grid = \<lparr>s_width = 3, s_height = 3, pixels = [1, 2, 3, 4, 5, 6, 7, 8, 9]\<rparr>"

definition imageNoSize :: "nat Image" where
  "imageNoSize = \<lparr>naturalWidth = None, naturalHeight = None, img_width = None,
     img_height = Some 3, bitmap = row3\<rparr>"

definition imageZero :: "nat Image" where
  "imageZero = \<lparr>naturalWidth = Some 0, naturalHeight = Some 1, img_width = Some 3,
     img_height = Some 1, bitmap = row3\<rparr>"

definition imageRow :: "nat Image" where
  "imageRow = \<lparr>naturalWidth = Some 3, naturalHeight = Some 1, img_width = None,
     img_height = None, bitmap = row3\<rparr>"

section \<open>Facts about the typed-array operations\<close>

declare clearRows.simps [simp del] patchRows.simps [simp del]

lemma length_ta_fill: "length (ta_fill t v s e) = length t"
  by (simp add: ta_fill_def)

lemma nth_ta_fill: "i < length t \<Longrightarrow> ta_fill t v s e ! i = (if s \<le> i \<and> i < e then v else t ! i)"
  by (simp add: ta_fill_def)

lemma ta_set_length: "ta_set t s off = Inr t' \<Longrightarrow> length t' = length t"
  by (auto simp: ta_set_def split: if_splits)

lemma ta_set_whole: "length s = length t \<Longrightarrow> ta_set t s 0 = Inr s"
  by (auto simp: ta_set_def intro!: nth_equalityI)

lemma ta_set_nth:
  "ta_set t s off = Inr t' \<Longrightarrow> i < length t \<Longrightarrow>
   t' ! i = (if off \<le> i \<and> i < off + length s then s ! (i - off) else t ! i)"
  by (auto simp: ta_set_def split: if_splits)

lemma ta_set_ok: "length s + off \<le> length t \<Longrightarrow> \<exists>t'. ta_set t s off = Inr t'"
  by (simp add: ta_set_def)

lemma ta_subarray_row:
  assumes "b + n \<le> length p"
  shows "length (ta_subarray p b (b + n)) = n" and "j < n \<Longrightarrow> ta_subarray p b (b + n) ! j = p ! (b + j)"
  using assms by (simp_all add: ta_subarray_def)

section \<open>Rows of a rectangle\<close>

lemma in_row_span_iff:
  assumes "cx < w" "k < 4" "left d + width d \<le> w"
  shows "(rowOffset d w y \<le> (r * w + cx) * 4 + k \<and> (r * w + cx) * 4 + k < rowOffset d w y + width d * 4)
     \<longleftrightarrow> (r = top' d + y \<and> left d \<le> cx \<and> cx < left d + width d)"
proof -
  let ?a = "(top' d + y) * w + left d"
  let ?p = "r * w + cx"
  have e1: "(rowOffset d w y \<le> ?p * 4 + k) = (?a \<le> ?p)"
    using assms(2) by (auto simp: rowOffset_def)
  have e2: "(?p * 4 + k < rowOffset d w y + width d * 4) = (?p < ?a + width d)"
    using assms(2) by (auto simp: rowOffset_def)
  have "(?a \<le> ?p \<and> ?p < ?a + width d) = (r = top' d + y \<and> left d \<le> cx \<and> cx < left d + width d)"
  proof (cases "r = top' d + y")
    case True
    then show ?thesis by auto
  next
    case False
    then consider "r < top' d + y" | "top' d + y < r" by linarith
    then show ?thesis
    proof cases
      case 1
      then have "Suc r * w \<le> (top' d + y) * w" by (intro mult_le_mono1) simp
      then have "?p < ?a" using assms(1) by simp
      then show ?thesis using False by simp
    next
      case 2
      then have "Suc (top' d + y) * w \<le> r * w" by (intro mult_le_mono1) simp
      then have "?a + width d \<le> ?p" using assms(3) by simp
      then show ?thesis using False by simp
    qed
  qed
  then show ?thesis using e1 e2 by simp
qed

lemma row_end_le:
  assumes "left d + width d \<le> w" "top' d + height d \<le> h" "y < height d"
  shows "rowOffset d w y + width d * 4 \<le> w * h * 4"
proof -
  have "Suc (top' d + y) * w \<le> h * w" using assms(2,3) by (intro mult_le_mono1) simp
  then have "(top' d + y) * w + left d + width d \<le> h * w" using assms(1) by simp
  then show ?thesis by (simp add: rowOffset_def mult.commute)
qed

lemma row_disjoint:
  assumes "left d + width d \<le> w" "y < y'"
  shows "rowOffset d w y + width d * 4 \<le> rowOffset d w y'"
proof -
  have "Suc (top' d + y) * w \<le> (top' d + y') * w" using assms(2) by (intro mult_le_mono1) simp
  then have "(top' d + y) * w + left d + width d \<le> (top' d + y') * w + left d"
    using assms(1) by simp
  then show ?thesis by (simp add: rowOffset_def)
qed

lemma src_end_le:
  assumes "y < height d"
  shows "y * (width d * 4) + width d * 4 \<le> width d * height d * 4"
proof -
  have "Suc y * (width d * 4) \<le> height d * (width d * 4)"
    using assms by (intro mult_le_mono1) simp
  then show ?thesis by (simp add: mult.commute mult.left_commute)
qed

lemma pixelByte_less: "x < w \<Longrightarrow> y < h \<Longrightarrow> k < 4 \<Longrightarrow> pixelByte w x y k < w * h * 4"
proof -
  assume a: "x < w" "y < h" "k < 4"
  have "Suc y * w \<le> h * w" using a(2) by (intro mult_le_mono1) simp
  then have "y * w + x < h * w" using a(1) by simp
  then show ?thesis using a(3) by (simp add: pixelByte_def mult.commute)
qed

section \<open>Clearing\<close>

lemma length_clearRows: "length (clearRows y t d w) = length t"
proof (induction y t d w rule: clearRows.induct)
  case (1 y target d w)
  show ?case
    using 1 by (subst clearRows.simps) (simp add: length_ta_fill Let_def)
qed

lemma nth_clearRows:
  "i < length t \<Longrightarrow>
   clearRows y t d w ! i =
     (if \<exists>y'. y \<le> y' \<and> y' < height d \<and> rowOffset d w y' \<le> i \<and> i < rowOffset d w y' + width d * 4
      then 0 else t ! i)"
proof (induction y t d w rule: clearRows.induct)
  case (1 y target d w)
  show ?case
  proof (cases "y < height d")
    case False
    then show ?thesis by (subst clearRows.simps) auto
  next
    case True
    let ?t1 = "ta_fill target 0 (rowOffset d w y) (rowOffset d w y + width d * 4)"
    have step: "clearRows y target d w = clearRows (Suc y) ?t1 d w"
      using True by (subst clearRows.simps) (simp add: rowOffset_def Let_def)
    have i1: "i < length ?t1" using 1(2) by (simp add: length_ta_fill)
    have ih: "clearRows (Suc y) ?t1 d w ! i =
      (if \<exists>y'. Suc y \<le> y' \<and> y' < height d \<and> rowOffset d w y' \<le> i \<and> i < rowOffset d w y' + width d * 4
       then 0 else ?t1 ! i)"
      using 1(1)[OF True refl i1[unfolded rowOffset_def]] by (simp only: rowOffset_def)
    show ?thesis
      unfolding step ih using 1(2) True
      by (auto simp: nth_ta_fill Suc_le_eq le_less)
  qed
qed

lemma clearRectPixels_length: "length (clearRectPixels t d w) = length t"
  by (simp add: clearRectPixels_def length_clearRows)

lemma clearRectPixels_pixel:
  assumes "length t = w * h * 4" "left d + width d \<le> w" "x < w" "y < h" "k < 4"
  shows "clearRectPixels t d w ! pixelByte w x y k =
           (if inRect d x y then 0 else t ! pixelByte w x y k)"
proof -
  have lt: "pixelByte w x y k < length t"
    using pixelByte_less[OF assms(3,4,5)] assms(1) by simp
  have "(\<exists>y'. 0 \<le> y' \<and> y' < height d \<and> rowOffset d w y' \<le> pixelByte w x y k \<and>
              pixelByte w x y k < rowOffset d w y' + width d * 4) = inRect d x y"
    unfolding pixelByte_def in_row_span_iff[OF assms(3) assms(5) assms(2)] inRect_def
    by (auto intro: exI[of _ "y - top' d"])
  then show ?thesis
    unfolding clearRectPixels_def nth_clearRows[OF lt] by simp
qed

section \<open>Patching\<close>

lemma patchRows_step:
  "y < height d \<Longrightarrow>
   patchRows y t p d w =
     (case ta_set t (ta_subarray p (y * (width d * 4)) (y * (width d * 4) + width d * 4))
             (rowOffset d w y) of
        Inl e \<Rightarrow> Inl e
      | Inr t1 \<Rightarrow> patchRows (Suc y) t1 p d w)"
  by (subst patchRows.simps) (simp add: Let_def rowOffset_def)

lemma patchRows_done: "\<not> y < height d \<Longrightarrow> patchRows y t p d w = Inr t"
  by (subst patchRows.simps) simp

lemma patchRows_length: "patchRows y t p d w = Inr t' \<Longrightarrow> length t' = length t"
proof (induction y t p d w rule: patchRows.induct)
  case (1 y target p d w)
  show ?case
  proof (cases "y < height d")
    case False
    then show ?thesis using 1(2) by (subst (asm) patchRows.simps) simp
  next
    case True
    from 1(2) True obtain t1 where
      s1: "ta_set target (ta_subarray p (y * (width d * 4)) (y * (width d * 4) + width d * 4))
             (((top' d + y) * w + left d) * 4) = Inr t1"
      and r: "patchRows (Suc y) t1 p d w = Inr t'"
      by (subst (asm) patchRows.simps) (auto simp: Let_def split: sum.splits)
    have "length t' = length t1" using 1(1)[OF True refl refl refl s1 r] .
    then show ?thesis using ta_set_length[OF s1] by simp
  qed
qed

lemma patchRows_fits:
  assumes "length t = w * h * 4" "left d + width d \<le> w" "top' d + height d \<le> h"
    "width d * height d * 4 \<le> length p"
  shows "\<exists>t'. patchRows y t p d w = Inr t' \<and> length t' = length t \<and>
     (\<forall>y' j. y \<le> y' \<and> y' < height d \<and> j < width d * 4 \<longrightarrow>
          t' ! (rowOffset d w y' + j) = p ! (y' * (width d * 4) + j)) \<and>
     (\<forall>i<length t. (\<forall>y'. y \<le> y' \<and> y' < height d \<longrightarrow>
          \<not> (rowOffset d w y' \<le> i \<and> i < rowOffset d w y' + width d * 4)) \<longrightarrow> t' ! i = t ! i)"
  using assms
proof (induction y t p d w rule: patchRows.induct)
  case (1 y target p d w)
  note len = "1.prems"(1) and fitw = "1.prems"(2) and fith = "1.prems"(3) and plen = "1.prems"(4)
  show ?case
  proof (cases "y < height d")
    case False
    then show ?thesis by (auto simp: patchRows_done)
  next
    case True
    let ?rs = "width d * 4"
    let ?sub = "ta_subarray p (y * ?rs) (y * ?rs + ?rs)"
    let ?off = "rowOffset d w y"
    have srcfit: "y * ?rs + ?rs \<le> length p" using src_end_le[OF True] plen by simp
    have sublen: "length ?sub = ?rs" using ta_subarray_row(1)[OF srcfit] .
    have subnth: "\<And>j. j < ?rs \<Longrightarrow> ?sub ! j = p ! (y * ?rs + j)"
      using ta_subarray_row(2)[OF srcfit] .
    have dstfit: "?off + ?rs \<le> length target"
      using row_end_le[OF fitw fith True] len by simp
    obtain t1 where t1: "ta_set target ?sub ?off = Inr t1"
      using ta_set_ok[of ?sub ?off target] sublen dstfit by auto
    have t1len: "length t1 = w * h * 4" using ta_set_length[OF t1] len by simp
    have t1nth: "\<And>i. i < length target \<Longrightarrow>
        t1 ! i = (if ?off \<le> i \<and> i < ?off + ?rs then ?sub ! (i - ?off) else target ! i)"
      using ta_set_nth[OF t1] sublen by simp
    have step: "patchRows y target p d w = patchRows (Suc y) t1 p d w"
      using patchRows_step[OF True] t1 by simp
    have "\<exists>t'. patchRows (Suc y) t1 p d w = Inr t' \<and> length t' = length t1 \<and>
       (\<forall>y' j. Suc y \<le> y' \<and> y' < height d \<and> j < ?rs \<longrightarrow>
            t' ! (rowOffset d w y' + j) = p ! (y' * ?rs + j)) \<and>
       (\<forall>i<length t1. (\<forall>y'. Suc y \<le> y' \<and> y' < height d \<longrightarrow>
            \<not> (rowOffset d w y' \<le> i \<and> i < rowOffset d w y' + ?rs)) \<longrightarrow> t' ! i = t1 ! i)"
      using "1.IH"[OF True refl refl refl _ t1len fitw fith plen] t1 by (simp add: rowOffset_def)
    then obtain t' where r: "patchRows (Suc y) t1 p d w = Inr t'"
      and l': "length t' = length t1"
      and rows: "\<And>y' j. Suc y \<le> y' \<Longrightarrow> y' < height d \<Longrightarrow> j < ?rs \<Longrightarrow>
            t' ! (rowOffset d w y' + j) = p ! (y' * ?rs + j)"
      and rest: "\<And>i. i < length t1 \<Longrightarrow> (\<forall>y'. Suc y \<le> y' \<and> y' < height d \<longrightarrow>
            \<not> (rowOffset d w y' \<le> i \<and> i < rowOffset d w y' + ?rs)) \<Longrightarrow> t' ! i = t1 ! i"
      by blast
    have A: "t' ! (rowOffset d w y' + j) = p ! (y' * ?rs + j)"
      if "y \<le> y'" "y' < height d" "j < ?rs" for y' j
    proof (cases "y' = y")
      case False
      then show ?thesis using rows that by simp
    next
      case True
      have ilt: "?off + j < length t1" using dstfit that(3) t1len len by simp
      have "\<forall>y''. Suc y \<le> y'' \<and> y'' < height d \<longrightarrow>
              \<not> (rowOffset d w y'' \<le> ?off + j \<and> ?off + j < rowOffset d w y'' + ?rs)"
      proof (intro allI impI)
        fix y'' assume "Suc y \<le> y'' \<and> y'' < height d"
        then have "?off + ?rs \<le> rowOffset d w y''" using row_disjoint[OF fitw, of y y''] by simp
        then show "\<not> (rowOffset d w y'' \<le> ?off + j \<and> ?off + j < rowOffset d w y'' + ?rs)"
          using that(3) by simp
      qed
      then have "t' ! (?off + j) = t1 ! (?off + j)" using rest[OF ilt] by simp
      also have "\<dots> = ?sub ! j" using t1nth[of "?off + j"] ilt t1len len that(3) by simp
      also have "\<dots> = p ! (y * ?rs + j)" using subnth that(3) by simp
      finally show ?thesis using True by simp
    qed
    have B: "t' ! i = target ! i"
      if "i < length target"
        "\<forall>y'. y \<le> y' \<and> y' < height d \<longrightarrow>
           \<not> (rowOffset d w y' \<le> i \<and> i < rowOffset d w y' + ?rs)" for i
    proof -
      have "t' ! i = t1 ! i" using rest[of i] that t1len len by simp
      moreover have "\<not> (?off \<le> i \<and> i < ?off + ?rs)" using that(2) True by blast
      ultimately show ?thesis using t1nth[OF that(1)] by simp
    qed
    show ?thesis
      unfolding step using r l' t1len len A B by simp
  qed
qed

lemma patchRows_outcome:
  "(if (\<forall>y'. y \<le> y' \<and> y' < height d \<longrightarrow> rowFits p d w (length t) y')
    then \<exists>t'. patchRows y t p d w = Inr t'
    else patchRows y t p d w = Inl RangeError)"
proof (induction y t p d w rule: patchRows.induct)
  case (1 y target p d w)
  show ?case
  proof (cases "y < height d")
    case False
    then show ?thesis by (auto simp: patchRows_done)
  next
    case True
    let ?sub = "ta_subarray p (y * (width d * 4)) (y * (width d * 4) + width d * 4)"
    show ?thesis
    proof (cases "rowFits p d w (length target) y")
      case False
      then have "ta_set target ?sub (rowOffset d w y) = Inl RangeError"
        by (simp add: rowFits_def ta_set_def)
      then have "patchRows y target p d w = Inl RangeError"
        using patchRows_step[OF True] by simp
      moreover have "\<not> (\<forall>y'. y \<le> y' \<and> y' < height d \<longrightarrow> rowFits p d w (length target) y')"
        using False True by blast
      ultimately show ?thesis by simp
    next
      case fit: True
      then obtain t1 where t1: "ta_set target ?sub (rowOffset d w y) = Inr t1"
        using ta_set_ok[of ?sub "rowOffset d w y" target] by (auto simp: rowFits_def add.commute)
      have l1: "length t1 = length target" using ta_set_length[OF t1] .
      have step: "patchRows y target p d w = patchRows (Suc y) t1 p d w"
        using patchRows_step[OF True] t1 by simp
      have ih: "(if (\<forall>y'. Suc y \<le> y' \<and> y' < height d \<longrightarrow> rowFits p d w (length t1) y')
          then \<exists>t'. patchRows (Suc y) t1 p d w = Inr t'
          else patchRows (Suc y) t1 p d w = Inl RangeError)"
        using "1.IH"[OF True refl refl refl] t1 by (simp add: rowOffset_def)
      have "(\<forall>y'. y \<le> y' \<and> y' < height d \<longrightarrow> rowFits p d w (length target) y')
          = (\<forall>y'. Suc y \<le> y' \<and> y' < height d \<longrightarrow> rowFits p d w (length target) y')"
        using fit by (metis Suc_leI Suc_leD le_neq_implies_less)
      then show ?thesis using ih step l1 by simp
    qed
  qed
qed

section \<open>Invariants of the reconstruction loop\<close>

lemma applyDisposal_inv:
  assumes "stateInv w h st"
  shows "\<exists>c1. applyDisposal w st = Inr c1 \<and> length c1 = w * h * 4"
  using assms
  by (auto simp: applyDisposal_def stateInv_def clearRectPixels_length ta_set_whole
           split: option.splits bool.splits)

lemma composite_length: "composite c p d w h = Inr c' \<Longrightarrow> length c' = length c"
  by (auto simp: composite_def applyPatch_def ta_set_length patchRows_length split: if_splits)

lemma frameStep_inv:
  assumes "stateInv w h st" "frameStep w h st f = Inr st'"
  shows "stateInv w h st'"
proof -
  from applyDisposal_inv[OF assms(1)] obtain c1 where
    c1: "applyDisposal w st = Inr c1" "length c1 = w * h * 4" by blast
  from assms(2) c1 obtain c2 where c2: "composite c1 (patch f) (dims f) w h = Inr c2"
    and st': "canvas st' = c2"
      "restoreSnapshot st' = (if disposalType f = Some 3 then Some c1 else None)"
    by (auto simp: frameStep_def Let_def split: sum.splits)
  show ?thesis using composite_length[OF c2] c1(2) st' by (simp add: stateInv_def)
qed

lemma initState_inv: "stateInv w h (initState w h)"
  by (simp add: stateInv_def initState_def ta_new_def)

lemma frameLoop_inv:
  "stateInv w h st \<Longrightarrow> frameLoop w h st fs = Inr st' \<Longrightarrow> stateInv w h st'"
proof (induction fs arbitrary: st)
  case Nil
  then show ?case by simp
next
  case (Cons f fs)
  then show ?case by (auto split: sum.splits dest: frameStep_inv)
qed

lemma frameLoop_append:
  "frameLoop w h st (xs @ ys) =
     (case frameLoop w h st xs of Inl e \<Rightarrow> Inl e | Inr st' \<Rightarrow> frameLoop w h st' ys)"
  by (induction xs arbitrary: st) (auto split: sum.splits)

lemma frameLoop_snoc:
  "frameLoop w h st (xs @ [f]) = Inr st' \<Longrightarrow>
   \<exists>st1. frameLoop w h st xs = Inr st1 \<and> frameStep w h st1 f = Inr st'"
  by (auto simp: frameLoop_append split: sum.splits)

lemma frameStep_pending:
  "frameStep w h st f = Inr st' \<Longrightarrow>
   prevDisposal st' = (case disposalType f of None \<Rightarrow> 0 | Some k \<Rightarrow> k) \<and>
   prevRect st' = Some (dims f)"
  by (auto simp: frameStep_def Let_def split: sum.splits)

lemma frameStep_fullFrames:
  "frameStep w h st f = Inr st' \<Longrightarrow>
   fullFrames st' = fullFrames st @ [\<lparr>data = canvas st', fdelay = delay f\<rparr>]"
  by (auto simp: frameStep_def Let_def split: sum.splits)

lemma frameLoop_fullFrames:
  "frameLoop w h st fs = Inr st' \<Longrightarrow>
   \<exists>more. fullFrames st' = fullFrames st @ more \<and> length more = length fs"
proof (induction fs arbitrary: st)
  case Nil
  then show ?case by simp
next
  case (Cons f fs)
  from Cons.prems obtain st1 where s1: "frameStep w h st f = Inr st1"
    and r: "frameLoop w h st1 fs = Inr st'"
    by (auto split: sum.splits)
  from Cons.IH[OF r] obtain more where
    m: "fullFrames st' = fullFrames st1 @ more" "length more = length fs" by blast
  show ?case
    using m frameStep_fullFrames[OF s1] by simp
qed

lemma frameLoop_init_count:
  "frameLoop w h (initState w h) fs = Inr st \<Longrightarrow> length (fullFrames st) = length fs"
  using frameLoop_fullFrames[of w h "initState w h" fs st] by (auto simp: initState_def)

lemma frameStep_snapshot:
  "frameStep w h st f = Inr st' \<Longrightarrow>
   \<exists>c1. applyDisposal w st = Inr c1 \<and>
        restoreSnapshot st' = (if disposalType f = Some 3 then Some c1 else None)"
  by (auto simp: frameStep_def Let_def split: sum.splits)

lemma snapshot_is_fresh:
  assumes "frameLoop w h (initState w h) (before @ [g]) = Inr st"
  shows "heldSnapshotFresh w h before g st"
proof -
  from frameLoop_snoc[OF assms] obtain st1 where
    st1: "frameLoop w h (initState w h) before = Inr st1" and step: "frameStep w h st1 g = Inr st"
    by blast
  from frameStep_snapshot[OF step] obtain c1 where
    c1: "applyDisposal w st1 = Inr c1"
    and snap: "restoreSnapshot st = (if disposalType g = Some 3 then Some c1 else None)"
    by blast
  show ?thesis
    using st1 c1 snap by (simp add: heldSnapshotFresh_def pendingCanvas_def)
qed

section \<open>Restoring the previous canvas\<close>

text \<open>
  Claim C1, as the spec states it: when patch \<open>A\<close> has disposal 3 (restore to previous),
  the canvas is snapshotted immediately before \<open>A\<close> is drawn, and the disposal step that
  runs before the next-but-one patch restores the canvas to that snapshot, whatever \<open>A\<close>
  and the patch in between drew. The code restores one patch earlier. On a 1 x 1 canvas
  with \<open>A = frameA\<close> followed by \<open>frameB\<close> (which does not dispose), the canvas before
  \<open>A\<close> is \<open>[0, 0, 0, 0]\<close>, and the canvas the disposal step leaves for the next-but-one
  patch is what \<open>frameB\<close> drew.
\<close>

theorem restoreToPrevious_counterexample:
  "disposalType frameA = Some 3 \<and>
   pendingCanvas 1 1 [] = Inr [0, 0, 0, 0] \<and>
   pendingCanvas 1 1 ([] @ [frameA, frameB]) = Inr [2, 2, 2, 255] \<and>
   pendingCanvas 1 1 ([] @ [frameA, frameB]) \<noteq> pendingCanvas 1 1 []"
  by code_simp

text \<open>
  Claim C1, amended: when patch \<open>A\<close> has disposal 3, the snapshot held after \<open>A\<close> is the
  canvas as it was immediately before \<open>A\<close> was drawn (after the disposal of the patch before
  \<open>A\<close>, not after \<open>A\<close>), and the disposal step that runs before the next patch, the one
  that follows \<open>A\<close>, restores the canvas byte for byte to that snapshot, whatever \<open>A\<close>
  drew.
\<close>

theorem restoreToPrevious_roundtrip:
  assumes run: "frameLoop w h (initState w h) (pre @ [a]) = Inr st1"
    and disp: "disposalType a = Some 3"
  shows "\<exists>c0. pendingCanvas w h pre = Inr c0 \<and> restoreSnapshot st1 = Some c0 \<and>
           pendingCanvas w h (pre @ [a]) = Inr c0"
proof -
  from frameLoop_snoc[OF run] obtain st0 where
    st0: "frameLoop w h (initState w h) pre = Inr st0" and step: "frameStep w h st0 a = Inr st1"
    by blast
  from frameStep_snapshot[OF step] disp obtain c0 where
    c0: "applyDisposal w st0 = Inr c0" and snap: "restoreSnapshot st1 = Some c0" by auto
  have inv0: "stateInv w h st0" using frameLoop_inv[OF initState_inv st0] .
  have inv1: "stateInv w h st1" using frameLoop_inv[OF initState_inv run] .
  have l0: "length c0 = length (canvas st1)"
    using applyDisposal_inv[OF inv0] c0 inv1 by (auto simp: stateInv_def)
  have pd: "prevDisposal st1 = 3" using frameStep_pending[OF step] disp by simp
  have "applyDisposal w st1 = Inr c0"
    using pd snap l0 by (simp add: applyDisposal_def ta_set_whole)
  then show ?thesis
    using st0 c0 snap run by (simp add: pendingCanvas_def)
qed

theorem restoreToPrevious_roundtrip_witness:
  "frameLoop 1 1 (initState 1 1) ([] @ [frameA]) = Inr stateA \<and>
   disposalType frameA = Some 3 \<and>
   canvas stateA = [1, 1, 1, 255] \<and>
   (\<exists>c0. pendingCanvas 1 1 [] = Inr c0 \<and> restoreSnapshot stateA = Some c0 \<and>
         pendingCanvas 1 1 ([] @ [frameA]) = Inr c0)"
proof -
  have run: "frameLoop 1 1 (initState 1 1) ([] @ [frameA]) = Inr stateA" by code_simp
  have disp: "disposalType frameA = Some 3" by code_simp
  have cv: "canvas stateA = [1, 1, 1, 255]" by code_simp
  show ?thesis
    using run disp cv restoreToPrevious_roundtrip[OF run disp] by simp
qed

section \<open>Restoring the background\<close>

text \<open>
  Claim C2, as the spec states it: for every patch sequence, when the previous patch has
  disposal 2 (restore background), the disposal step clears exactly the rectangle of that
  patch and changes no canvas byte outside it. The code clears linear byte ranges and does
  not check the rectangle against the canvas. On a red 2 x 2 canvas, a patch with the
  rectangle left = 1, top = 0, width = 2, height = 1 is drawn on pixels \<open>(1, 0)\<close> and
  \<open>(0, 1)\<close>; its disposal zeroes both, and pixel \<open>(0, 1)\<close> is outside the rectangle.
\<close>

theorem restoreBackground_counterexample:
  "frameLoop 2 2 (initState 2 2) ([frameRed] @ [frameWideClear]) = Inr stateWideClear \<and>
   disposalType frameWideClear = Some 2 \<and>
   \<not> inRect (dims frameWideClear) 0 1 \<and>
   canvas stateWideClear ! pixelByte 2 0 1 0 = 2 \<and>
   applyDisposal 2 stateWideClear =
     Inr [255, 0, 0, 255, 0, 0, 0, 0, 0, 0, 0, 0, 255, 0, 0, 255] \<and>
   [255, 0, 0, 255, 0, 0, 0, 0, 0, 0, 0, 0, 255, 0, 0, 255 :: byte] ! pixelByte 2 0 1 0 = 0"
  by code_simp

text \<open>
  Claim C2, amended: when the previous patch \<open>p\<close> has disposal 2 (restore background) and
  its rectangle lies within the width of the canvas (\<open>left + width \<le> W\<close>), the disposal
  step before the current patch sets the bytes of the pixels of the rectangle of \<open>p\<close> to
  zero and leaves every byte of every pixel outside the rectangle unchanged; the canvas
  keeps its size.
\<close>

theorem restoreBackground_clears_region:
  assumes run: "frameLoop w h (initState w h) (pre @ [p]) = Inr st"
    and disp: "disposalType p = Some 2"
    and fits: "left (dims p) + width (dims p) \<le> w"
    and px: "x < w" "y < h" "k < 4"
  shows "\<exists>c1. applyDisposal w st = Inr c1 \<and> length c1 = length (canvas st) \<and>
           c1 ! pixelByte w x y k =
             (if inRect (dims p) x y then 0 else canvas st ! pixelByte w x y k)"
proof -
  from frameLoop_snoc[OF run] obtain st1 where
    st1: "frameLoop w h (initState w h) pre = Inr st1" and step: "frameStep w h st1 p = Inr st"
    by blast
  have inv: "stateInv w h st" using frameLoop_inv[OF initState_inv run] .
  have pend: "prevDisposal st = 2" "prevRect st = Some (dims p)"
    using frameStep_pending[OF step] disp by simp_all
  have ad: "applyDisposal w st = Inr (clearRectPixels (canvas st) (dims p) w)"
    using pend by (simp add: applyDisposal_def)
  have len: "length (canvas st) = w * h * 4" using inv by (simp add: stateInv_def)
  show ?thesis
    unfolding ad using clearRectPixels_pixel[OF len fits px]
    by (simp add: clearRectPixels_length)
qed

theorem restoreBackground_clears_region_witness:
  "frameLoop 2 2 (initState 2 2) ([frameRed] @ [frameBlue]) = Inr stateRedBlue \<and>
   disposalType frameBlue = Some 2 \<and>
   left (dims frameBlue) + width (dims frameBlue) \<le> 2 \<and>
   (\<exists>c1. applyDisposal 2 stateRedBlue = Inr c1 \<and> length c1 = length (canvas stateRedBlue) \<and>
         c1 ! pixelByte 2 1 1 2 =
           (if inRect (dims frameBlue) 1 1 then 0 else canvas stateRedBlue ! pixelByte 2 1 1 2)) \<and>
   (\<exists>c1. applyDisposal 2 stateRedBlue = Inr c1 \<and> length c1 = length (canvas stateRedBlue) \<and>
         c1 ! pixelByte 2 0 1 0 =
           (if inRect (dims frameBlue) 0 1 then 0 else canvas stateRedBlue ! pixelByte 2 0 1 0)) \<and>
   inRect (dims frameBlue) 1 1 \<and> \<not> inRect (dims frameBlue) 0 1"
proof -
  have run: "frameLoop 2 2 (initState 2 2) ([frameRed] @ [frameBlue]) = Inr stateRedBlue"
    by code_simp
  have disp: "disposalType frameBlue = Some 2" by code_simp
  have fits: "left (dims frameBlue) + width (dims frameBlue) \<le> 2" by code_simp
  have r: "inRect (dims frameBlue) 1 1" "\<not> inRect (dims frameBlue) 0 1" by code_simp+
  show ?thesis
    using run disp fits r
      restoreBackground_clears_region[OF run disp fits, of 1 1 2]
      restoreBackground_clears_region[OF run disp fits, of 0 1 0]
    by simp
qed

section \<open>Compositing a patch\<close>

text \<open>
  Claim C3, as the spec states it: for every patch whose buffer does not have the size of
  the canvas, every row \<open>y\<close> of its rectangle has exactly \<open>region.width * 4\<close> bytes copied
  from patch offset \<open>y * region.width * 4\<close> to canvas offset
  \<open>((region.top + y) * width + region.left) * 4\<close>, and a frame is emitted. The code does not
  check the patch: from a buffer of three bytes it copies three bytes; a rectangle two
  pixels wide on a canvas one pixel wide has the second half of its row 0 overwritten by
  row 1; and a rectangle below the canvas raises the range error, so no frame is emitted.
\<close>

theorem composite_counterexample:
  "length (patch frameShort) \<noteq> 1 * 1 * 4 \<and>
   buildFullFrames [frameShort] 1 1 = Inr [\<lparr>data = [7, 7, 7, 0], fdelay = 4\<rparr>] \<and>
   length (ta_subarray (patch frameShort) (0 * (width (dims frameShort) * 4))
             (0 * (width (dims frameShort) * 4) + width (dims frameShort) * 4))
     \<noteq> width (dims frameShort) * 4 \<and>
   length (patch frameTall) \<noteq> 1 * 3 * 4 \<and>
   buildFullFrames [frameTall] 1 3 =
     Inr [\<lparr>data = [1, 1, 1, 255, 3, 3, 3, 255, 4, 4, 4, 255], fdelay = 4\<rparr>] \<and>
   [1, 1, 1, 255, 3, 3, 3, 255, 4, 4, 4, 255 :: byte] ! (rowOffset (dims frameTall) 1 0 + 4)
     \<noteq> patch frameTall ! (0 * (width (dims frameTall) * 4) + 4) \<and>
   length (patch frameBelow) \<noteq> 1 * 2 * 4 \<and>
   buildFullFrames [frameBelow] 1 2 = Inl RangeError"
  by code_simp

text \<open>
  Claim C3, amended: for a patch drawn in a state the loop reaches, with \<open>c1\<close> the canvas
  after the disposal step: if its buffer has \<open>width * height * 4\<close> bytes, the canvas
  becomes the patch; if its buffer has \<open>region.width * region.height * 4\<close> bytes and its
  rectangle lies within the canvas, then for every row \<open>y\<close> of the rectangle the
  \<open>region.width * 4\<close> bytes at patch offset \<open>y * region.width * 4\<close> are at canvas offset
  \<open>((region.top + y) * width + region.left) * 4\<close>, and the bytes of the canvas outside
  these rows are those of \<open>c1\<close>. In both cases the iteration succeeds, the frame emitted
  for the patch is the resulting canvas with the delay of the patch, and it is what the
  final result holds at the position of the patch, whatever the later patches draw.
\<close>

theorem composite_step:
  assumes run: "frameLoop w h (initState w h) pre = Inr st"
    and disp: "applyDisposal w st = Inr c1"
    and model: "length (patch f) = w * h * 4 \<or>
               (length (patch f) = width (dims f) * height (dims f) * 4 \<and>
                left (dims f) + width (dims f) \<le> w \<and> top' (dims f) + height (dims f) \<le> h)"
  shows "\<exists>st'. frameStep w h st f = Inr st' \<and> length (canvas st') = w * h * 4 \<and>
     (if length (patch f) = w * h * 4 then canvas st' = patch f
      else (\<forall>y<height (dims f). \<forall>j<width (dims f) * 4.
              canvas st' ! (rowOffset (dims f) w y + j) = patch f ! (y * (width (dims f) * 4) + j)) \<and>
           (\<forall>i<w * h * 4.
              (\<forall>y<height (dims f). \<not> (rowOffset (dims f) w y \<le> i \<and>
                   i < rowOffset (dims f) w y + width (dims f) * 4)) \<longrightarrow>
              canvas st' ! i = c1 ! i)) \<and>
     fullFrames st' = fullFrames st @ [\<lparr>data = canvas st', fdelay = delay f\<rparr>] \<and>
     (\<forall>rest ffs. buildFullFrames (pre @ f # rest) w h = Inr ffs \<longrightarrow>
        ffs ! length pre = \<lparr>data = canvas st', fdelay = delay f\<rparr>)"
proof -
  have inv: "stateInv w h st" using frameLoop_inv[OF initState_inv run] .
  from applyDisposal_inv[OF inv] disp have c1len: "length c1 = w * h * 4" by simp
  have "\<exists>c2. composite c1 (patch f) (dims f) w h = Inr c2 \<and>
     (if length (patch f) = w * h * 4 then c2 = patch f
      else (\<forall>y<height (dims f). \<forall>j<width (dims f) * 4.
              c2 ! (rowOffset (dims f) w y + j) = patch f ! (y * (width (dims f) * 4) + j)) \<and>
           (\<forall>i<w * h * 4.
              (\<forall>y<height (dims f). \<not> (rowOffset (dims f) w y \<le> i \<and>
                   i < rowOffset (dims f) w y + width (dims f) * 4)) \<longrightarrow>
              c2 ! i = c1 ! i))"
  proof (cases "length (patch f) = w * h * 4")
    case True
    then show ?thesis using c1len by (simp add: composite_def ta_set_whole)
  next
    case False
    then have pl: "width (dims f) * height (dims f) * 4 \<le> length (patch f)"
      and fitw: "left (dims f) + width (dims f) \<le> w"
      and fith: "top' (dims f) + height (dims f) \<le> h"
      using model by simp_all
    from patchRows_fits[OF c1len fitw fith pl, of 0]
    show ?thesis using False c1len by (auto simp: composite_def applyPatch_def)
  qed
  then obtain c2 where c2: "composite c1 (patch f) (dims f) w h = Inr c2"
    and shape: "if length (patch f) = w * h * 4 then c2 = patch f
      else (\<forall>y<height (dims f). \<forall>j<width (dims f) * 4.
              c2 ! (rowOffset (dims f) w y + j) = patch f ! (y * (width (dims f) * 4) + j)) \<and>
           (\<forall>i<w * h * 4.
              (\<forall>y<height (dims f). \<not> (rowOffset (dims f) w y \<le> i \<and>
                   i < rowOffset (dims f) w y + width (dims f) * 4)) \<longrightarrow>
              c2 ! i = c1 ! i)"
    by blast
  obtain st' where st': "frameStep w h st f = Inr st'" and cv: "canvas st' = c2"
    using disp c2 by (simp add: frameStep_def Let_def)
  have len: "length (canvas st') = w * h * 4"
    using composite_length[OF c2] c1len cv by simp
  have ff: "fullFrames st' = fullFrames st @ [\<lparr>data = canvas st', fdelay = delay f\<rparr>]"
    using frameStep_fullFrames[OF st'] .
  have out: "ffs ! length pre = \<lparr>data = canvas st', fdelay = delay f\<rparr>"
    if "buildFullFrames (pre @ f # rest) w h = Inr ffs" for rest ffs
  proof -
    from that obtain stf where stf: "frameLoop w h (initState w h) (pre @ f # rest) = Inr stf"
      and ffs: "ffs = fullFrames stf"
      by (auto simp: buildFullFrames_def split: sum.splits)
    from stf run st' have "frameLoop w h st' rest = Inr stf"
      by (simp add: frameLoop_append)
    from frameLoop_fullFrames[OF this] obtain more where
      "fullFrames stf = fullFrames st' @ more" by blast
    then show ?thesis
      using ffs ff frameLoop_init_count[OF run] by (simp add: nth_append)
  qed
  show ?thesis
    using st' len shape cv ff out by auto
qed

theorem composite_step_witness:
  "frameLoop 2 2 (initState 2 2) [frameRed] = Inr stateRed \<and>
   applyDisposal 2 stateRed = Inr (canvas stateRed) \<and>
   (length (patch frameBlue) = 2 * 2 * 4 \<or>
    (length (patch frameBlue) = width (dims frameBlue) * height (dims frameBlue) * 4 \<and>
     left (dims frameBlue) + width (dims frameBlue) \<le> 2 \<and>
     top' (dims frameBlue) + height (dims frameBlue) \<le> 2)) \<and>
   frameStep 2 2 stateRed frameBlue = Inr stateRedBlue \<and>
   buildFullFrames ([frameRed] @ frameBlue # []) 2 2 = Inr (fullFrames stateRedBlue) \<and>
   (\<exists>st'. frameStep 2 2 stateRed frameBlue = Inr st' \<and> length (canvas st') = 2 * 2 * 4 \<and>
      fullFrames st' = fullFrames stateRed @ [\<lparr>data = canvas st', fdelay = delay frameBlue\<rparr>])"
proof -
  have run: "frameLoop 2 2 (initState 2 2) [frameRed] = Inr stateRed" by code_simp
  have disp: "applyDisposal 2 stateRed = Inr (canvas stateRed)" by code_simp
  have model: "length (patch frameBlue) = 2 * 2 * 4 \<or>
    (length (patch frameBlue) = width (dims frameBlue) * height (dims frameBlue) * 4 \<and>
     left (dims frameBlue) + width (dims frameBlue) \<le> 2 \<and>
     top' (dims frameBlue) + height (dims frameBlue) \<le> 2)" by code_simp
  have step: "frameStep 2 2 stateRed frameBlue = Inr stateRedBlue" by code_simp
  have out: "buildFullFrames ([frameRed] @ frameBlue # []) 2 2 = Inr (fullFrames stateRedBlue)"
    by code_simp
  from composite_step[OF run disp model]
  have "\<exists>st'. frameStep 2 2 stateRed frameBlue = Inr st' \<and> length (canvas st') = 2 * 2 * 4 \<and>
      fullFrames st' = fullFrames stateRed @ [\<lparr>data = canvas st', fdelay = delay frameBlue\<rparr>]"
    by blast
  then show ?thesis
    using run disp model step out by simp
qed

section \<open>Malformed input\<close>

text \<open>
  Claim C4, as the spec states it: reconstruction fails whenever \<open>width * height = 0\<close>, or
  a patch buffer has neither the size of the canvas nor that of its rectangle, or a
  rectangle exceeds the canvas. The code validates none of these: frames are produced on
  an empty canvas, from a patch of three bytes, and from a rectangle that passes the right
  edge of the canvas (its second pixel lands at the start of the next row).
\<close>

theorem malformed_input_counterexample:
  "buildFullFrames [frameEmpty] 0 0 = Inr [\<lparr>data = [], fdelay = 4\<rparr>] \<and>
   length (patch frameShort) \<noteq> 1 * 1 * 4 \<and>
   length (patch frameShort) \<noteq> width (dims frameShort) * height (dims frameShort) * 4 \<and>
   buildFullFrames [frameShort] 1 1 = Inr [\<lparr>data = [7, 7, 7, 0], fdelay = 4\<rparr>] \<and>
   2 < left (dims frameWide) + width (dims frameWide) \<and>
   buildFullFrames [frameWide] 2 2 =
     Inr [\<lparr>data = [0, 0, 0, 0, 1, 1, 1, 255, 2, 2, 2, 255, 0, 0, 0, 0], fdelay = 4\<rparr>]"
  by code_simp

text \<open>
Outcome of a frame, of one iteration and of the loop.
\<close>

lemma rowOverflows_iff:
  "rowOverflows w h f \<longleftrightarrow>
     length (patch f) \<noteq> w * h * 4 \<and>
     \<not> (\<forall>y'. 0 \<le> y' \<and> y' < height (dims f) \<longrightarrow> rowFits (patch f) (dims f) w (w * h * 4) y')"
  by (auto simp: rowOverflows_def rowFits_def list_ex_iff not_le)

lemma composite_outcome:
  assumes "length c = w * h * 4"
  shows "(if rowOverflows w h f then composite c (patch f) (dims f) w h = Inl RangeError
          else \<exists>c'. composite c (patch f) (dims f) w h = Inr c')"
proof (cases "length (patch f) = w * h * 4")
  case True
  then show ?thesis using assms by (simp add: composite_def rowOverflows_iff ta_set_whole)
next
  case False
  show ?thesis
    using patchRows_outcome[of 0 "dims f" "patch f" w c] False assms
    by (auto simp: composite_def applyPatch_def rowOverflows_iff)
qed

lemma frameStep_outcome:
  assumes "stateInv w h st"
  shows "(if rowOverflows w h f then frameStep w h st f = Inl RangeError
          else \<exists>st'. frameStep w h st f = Inr st')"
proof -
  from applyDisposal_inv[OF assms] obtain c1 where
    c1: "applyDisposal w st = Inr c1" "length c1 = w * h * 4" by blast
  show ?thesis
    using composite_outcome[OF c1(2), of f] c1(1)
    by (auto simp: frameStep_def Let_def)
qed

lemma frameLoop_outcome:
  assumes "stateInv w h st" "framesSized (w * h * 4) (fullFrames st)"
  shows "(if list_ex (rowOverflows w h) fs then frameLoop w h st fs = Inl RangeError
          else \<exists>st'. frameLoop w h st fs = Inr st' \<and>
                 length (fullFrames st') = length (fullFrames st) + length fs \<and>
                 framesSized (w * h * 4) (fullFrames st'))"
  using assms
proof (induction fs arbitrary: st)
  case Nil
  then show ?case by simp
next
  case (Cons f fs)
  show ?case
  proof (cases "rowOverflows w h f")
    case True
    then show ?thesis using frameStep_outcome[OF Cons.prems(1), of f] by simp
  next
    case False
    then obtain st1 where s1: "frameStep w h st f = Inr st1"
      using frameStep_outcome[OF Cons.prems(1), of f] by auto
    have inv1: "stateInv w h st1" using frameStep_inv[OF Cons.prems(1) s1] .
    have ff1: "fullFrames st1 = fullFrames st @ [\<lparr>data = canvas st1, fdelay = delay f\<rparr>]"
      using frameStep_fullFrames[OF s1] .
    have sz1: "framesSized (w * h * 4) (fullFrames st1)"
      using Cons.prems(2) inv1 ff1 by (simp add: framesSized_def stateInv_def)
    have l1: "length (fullFrames st1) = Suc (length (fullFrames st))" using ff1 by simp
    show ?thesis
      using Cons.IH[OF inv1 sz1] False s1 l1 by (auto split: if_splits)
  qed
qed

lemma buildFullFrames_sized:
  "buildFullFrames frames w h = Inr ffs \<Longrightarrow> framesSized (w * h * 4) ffs"
proof -
  assume a: "buildFullFrames frames w h = Inr ffs"
  have sz: "framesSized (w * h * 4) (fullFrames (initState w h))"
    by (simp add: framesSized_def initState_def)
  show ?thesis
    using frameLoop_outcome[OF initState_inv sz, of frames] a
    by (auto simp: buildFullFrames_def split: if_splits)
qed

text \<open>
  Claim C4, amended: reconstruction fails exactly when some patch that is drawn row by row
  (its buffer does not have the size of the canvas) has a row whose destination offset plus
  the bytes available for that row pass the end of the canvas; the failure is the
  \<^verbatim>\<open>RangeError\<close> of the typed array, and no frame sequence is produced. In every other case,
  also when \<open>width * height = 0\<close> or a buffer has an unexpected size, one frame per patch is
  produced, each of exactly \<open>width * height * 4\<close> bytes: nothing is written outside the canvas.
\<close>

theorem buildFullFrames_outcome:
  "(if list_ex (rowOverflows w h) frames then buildFullFrames frames w h = Inl RangeError
    else \<exists>ffs. buildFullFrames frames w h = Inr ffs \<and> length ffs = length frames \<and>
           framesSized (w * h * 4) ffs)"
proof -
  have sz: "framesSized (w * h * 4) (fullFrames (initState w h))"
    by (simp add: framesSized_def initState_def)
  have l0: "length (fullFrames (initState w h)) = 0" by (simp add: initState_def)
  show ?thesis
    using frameLoop_outcome[OF initState_inv sz, of frames] l0
    by (auto simp: buildFullFrames_def)
qed

theorem buildFullFrames_outcome_witness:
  "list_ex (rowOverflows 1 2) [frameU, frameBelow] \<and>
   buildFullFrames [frameU, frameBelow] 1 2 = Inl RangeError \<and>
   \<not> list_ex (rowOverflows 2 2) [frameRed, frameBlue] \<and>
   (\<exists>ffs. buildFullFrames [frameRed, frameBlue] 2 2 = Inr ffs \<and>
      length ffs = length [frameRed, frameBlue] \<and> framesSized (2 * 2 * 4) ffs)"
proof -
  have a: "list_ex (rowOverflows 1 2) [frameU, frameBelow]" by code_simp
  have b: "\<not> list_ex (rowOverflows 2 2) [frameRed, frameBlue]" by code_simp
  have c: "buildFullFrames [frameU, frameBelow] 1 2 = Inl RangeError"
    using buildFullFrames_outcome[of 1 2 "[frameU, frameBelow]"] a by (simp only: if_True)
  have d: "\<exists>ffs. buildFullFrames [frameRed, frameBlue] 2 2 = Inr ffs \<and>
      length ffs = length [frameRed, frameBlue] \<and> framesSized (2 * 2 * 4) ffs"
    using buildFullFrames_outcome[of 2 2 "[frameRed, frameBlue]"] b by (simp only: if_False)
  show ?thesis using a b c d by (intro conjI)
qed

section \<open>Stale snapshots\<close>

text \<open>
  Claim C8: after a patch \<open>f\<close> whose disposal is not 3, no snapshot is held, and the
  disposal step before the next patch restores nothing: it clears the rectangle of \<open>f\<close> or
  leaves the canvas as it is. A snapshot held after any later patch \<open>g\<close> was taken for \<open>g\<close>
  itself, from the canvas immediately before \<open>g\<close> was drawn; so a snapshot taken for a patch
  before \<open>f\<close> is never applied later.
\<close>

theorem stale_snapshot_cleared:
  assumes run: "frameLoop w h (initState w h) (pre @ [f]) = Inr st"
    and disp: "disposalType f \<noteq> Some 3"
  shows "restoreSnapshot st = None \<and> prevDisposal st \<noteq> 3 \<and>
         applyDisposal w st =
           Inr (if prevDisposal st = 2 then clearRectPixels (canvas st) (dims f) w else canvas st) \<and>
         (\<forall>rest g st'. frameLoop w h st (rest @ [g]) = Inr st' \<longrightarrow>
            heldSnapshotFresh w h (pre @ [f] @ rest) g st')"
proof -
  from frameLoop_snoc[OF run] obtain st0 where step: "frameStep w h st0 f = Inr st" by blast
  have snap: "restoreSnapshot st = None" using frameStep_snapshot[OF step] disp by auto
  have pend: "prevDisposal st = (case disposalType f of None \<Rightarrow> 0 | Some k \<Rightarrow> k)"
      "prevRect st = Some (dims f)"
    using frameStep_pending[OF step] by simp_all
  have p3: "prevDisposal st \<noteq> 3" using pend(1) disp by (simp split: option.splits)
  have later: "heldSnapshotFresh w h (pre @ [f] @ rest) g st'"
    if "frameLoop w h st (rest @ [g]) = Inr st'" for rest g st'
  proof -
    have "frameLoop w h (initState w h) ((pre @ [f]) @ (rest @ [g])) = Inr st'"
      unfolding frameLoop_append[of w h _ "pre @ [f]"] using run that by simp
    then have "frameLoop w h (initState w h) ((pre @ [f] @ rest) @ [g]) = Inr st'"
      by simp
    then show ?thesis by (rule snapshot_is_fresh)
  qed
  show ?thesis
    using snap p3 pend(2) later by (simp add: applyDisposal_def)
qed

theorem stale_snapshot_cleared_witness:
  "frameLoop 1 1 (initState 1 1) ([frameA] @ [frameB]) = Inr stateAB \<and>
   disposalType frameB \<noteq> Some 3 \<and>
   restoreSnapshot stateA = Some [0, 0, 0, 0] \<and>
   restoreSnapshot stateAB = None \<and> prevDisposal stateAB \<noteq> 3 \<and>
   applyDisposal 1 stateAB = Inr (canvas stateAB) \<and>
   frameLoop 1 1 stateAB ([] @ [frameA]) = Inr stateABA \<and>
   heldSnapshotFresh 1 1 ([frameA] @ [frameB] @ []) frameA stateABA \<and>
   restoreSnapshot stateABA = Some (canvas stateAB)"
proof -
  have run: "frameLoop 1 1 (initState 1 1) ([frameA] @ [frameB]) = Inr stateAB" by code_simp
  have disp: "disposalType frameB \<noteq> Some 3" by code_simp
  have sa: "restoreSnapshot stateA = Some [0, 0, 0, 0]" by code_simp
  have cv: "applyDisposal 1 stateAB = Inr (canvas stateAB)" by code_simp
  have nxt: "frameLoop 1 1 stateAB ([] @ [frameA]) = Inr stateABA" by code_simp
  have sn: "restoreSnapshot stateABA = Some (canvas stateAB)" by code_simp
  from stale_snapshot_cleared[OF run disp]
  have a: "restoreSnapshot stateAB = None" "prevDisposal stateAB \<noteq> 3"
    and b: "heldSnapshotFresh 1 1 ([frameA] @ [frameB] @ []) frameA stateABA"
    using nxt by blast+
  show ?thesis using run disp sa cv nxt sn a b by (intro conjI)
qed

section \<open>Absent disposal\<close>

text \<open>
  Claim C10: a patch without \<^verbatim>\<open>disposalType\<close> is treated as one with disposal 0: the
  iteration gives the same state, no snapshot is taken, the pending disposal is 0, and the
  disposal step before the next patch leaves the canvas untouched.
\<close>

theorem absent_disposal_is_none:
  assumes absent: "disposalType f = None"
    and step: "frameStep w h st f = Inr st'"
  shows "frameStep w h st (f\<lparr>disposalType := Some 0\<rparr>) = Inr st' \<and>
         restoreSnapshot st' = None \<and> prevDisposal st' = 0 \<and>
         applyDisposal w st' = Inr (canvas st')"
proof -
  have same: "frameStep w h st (f\<lparr>disposalType := Some 0\<rparr>) = frameStep w h st f"
    using absent by (simp add: frameStep_def Let_def split: sum.splits)
  have snap: "restoreSnapshot st' = None" using frameStep_snapshot[OF step] absent by auto
  have pd: "prevDisposal st' = 0" using frameStep_pending[OF step] absent by simp
  show ?thesis using same step snap pd by (simp add: applyDisposal_def)
qed

theorem absent_disposal_is_none_witness:
  "disposalType frameU = None \<and>
   frameStep 1 1 (initState 1 1) frameU = Inr stateU \<and>
   frameStep 1 1 (initState 1 1) (frameU\<lparr>disposalType := Some 0\<rparr>) = Inr stateU \<and>
   restoreSnapshot stateU = None \<and> prevDisposal stateU = 0 \<and>
   applyDisposal 1 stateU = Inr (canvas stateU)"
proof -
  have absent: "disposalType frameU = None" by code_simp
  have step: "frameStep 1 1 (initState 1 1) frameU = Inr stateU" by code_simp
  show ?thesis
    using absent step absent_disposal_is_none[OF absent step] by simp
qed

section \<open>Facts about the drawing surface\<close>

lemma sample_same: "0 < n \<Longrightarrow> sample s n d n x = s + (x - d)"
proof -
  assume n: "0 < n"
  have "((2 * (x - d) + 1) * n) div (2 * n) = (2 * (x - d) + 1) div 2"
    using n by (simp add: div_mult_mult2)
  also have "\<dots> = x - d" by presburger
  finally show ?thesis by (simp add: sample_def)
qed

lemma sample_flip: "0 < n \<Longrightarrow> sample s n d (- n) x = s + (d - 1 - x)"
proof -
  assume n: "0 < n"
  have "((2 * (x - d) + 1) * n) div (2 * (- n)) = ((2 * (x - d) + 1) * n) div ((- 2) * n)"
    by simp
  also have "\<dots> = (2 * (x - d) + 1) div (- 2)"
    using n by (simp only: div_mult_mult2)
  also have "\<dots> = d - 1 - x" by presburger
  finally show ?thesis by (simp add: sample_def)
qed

lemma inSpan_pos: "0 \<le> n \<Longrightarrow> inSpan d n x = (d \<le> x \<and> x < d + n)"
  by (auto simp: inSpan_def)

lemma inSpan_neg: "0 \<le> n \<Longrightarrow> inSpan d (- n) x = (d - n \<le> x \<and> x < d)"
  by (auto simp: inSpan_def)

lemma cell_index:
  assumes "c < (w::nat)"
  shows "(y * w + c) mod w = c" and "(y * w + c) div w = y"
  using assms by simp_all

lemma cell_less:
  assumes "c < (w::nat)" "y < h"
  shows "y * w + c < w * h"
proof -
  have "Suc y * w \<le> h * w" using assms(2) by (intro mult_le_mono1) simp
  then show ?thesis using assms(1) by (simp add: mult.commute)
qed

lemma drawImage_shape:
  "s_width (drawImage be ctx src sx sy sw sh dx dy dw dh) = s_width ctx"
  "s_height (drawImage be ctx src sx sy sw sh dx dy dw dh) = s_height ctx"
  "length (pixels (drawImage be ctx src sx sy sw sh dx dy dw dh)) = length (pixels ctx)"
  by (simp_all add: drawImage_def)

lemma drawImage_cell:
  assumes nz: "sw \<noteq> 0" "sh \<noteq> 0" "dw \<noteq> 0" "dh \<noteq> 0"
    and c: "c < s_width ctx" and i: "y * s_width ctx + c < length (pixels ctx)"
  shows "pixelAt (drawImage be ctx src sx sy sw sh dx dy dw dh) c y =
     (let u = sample sx sw dx dw (int c); v = sample sy sh dy dh (int y)
      in if inSpan dx dw (int c) \<and> inSpan dy dh (int y) \<and>
            0 \<le> u \<and> u < int (s_width src) \<and> 0 \<le> v \<and> v < int (s_height src)
         then over be (pixelAt src (nat u) (nat v)) (pixelAt ctx c y)
         else pixelAt ctx c y)"
  using nz i cell_index[OF c, of y]
  by (simp add: drawImage_def pixelAt_def Let_def)

lemma clearRect_whole:
  assumes "s_width ctx = w" "length (pixels ctx) = w * h"
  shows "clearRect be ctx 0 0 (int w) (int h) = ctx\<lparr>pixels := replicate (w * h) (transparent be)\<rparr>"
proof -
  have "map (\<lambda>i. if inSpan 0 (int w) (int (i mod w)) \<and> inSpan 0 (int h) (int (i div w))
                 then transparent be else pixels ctx ! i) [0..<w * h]
        = replicate (w * h) (transparent be)"
  proof (rule nth_equalityI)
    show "length (map (\<lambda>i. if inSpan 0 (int w) (int (i mod w)) \<and> inSpan 0 (int h) (int (i div w))
                 then transparent be else pixels ctx ! i) [0..<w * h])
          = length (replicate (w * h) (transparent be))" by simp
  next
    fix i
    assume "i < length (map (\<lambda>i. if inSpan 0 (int w) (int (i mod w)) \<and> inSpan 0 (int h) (int (i div w))
                 then transparent be else pixels ctx ! i) [0..<w * h])"
    then have i: "i < w * h" by simp
    then have w0: "0 < w" by (cases w) simp_all
    have a: "i mod w < w" using w0 by simp
    have b: "i div w < h" using i w0 by (simp add: less_mult_imp_div_less mult.commute)
    show "map (\<lambda>i. if inSpan 0 (int w) (int (i mod w)) \<and> inSpan 0 (int h) (int (i div w))
                 then transparent be else pixels ctx ! i) [0..<w * h] ! i
          = replicate (w * h) (transparent be) ! i"
      using i a b by (simp add: inSpan_pos)
  qed
  then show ?thesis using assms by (simp add: clearRect_def)
qed

lemma drawSymmetry_shape:
  assumes "s_width ctx = w" "length (pixels ctx) = w * h"
  shows "s_width (drawSymmetry be ctx src w h direction) = w"
    and "s_height (drawSymmetry be ctx src w h direction) = s_height ctx"
    and "length (pixels (drawSymmetry be ctx src w h direction)) = w * h"
  using assms
  by (cases direction; simp add: drawSymmetry_def clearRect_whole[OF assms] drawImage_shape Let_def)+

lemma drawSymmetry_fresh:
  assumes "s_width ctx = w" "s_height ctx = h" "length (pixels ctx) = w * h"
  shows "drawSymmetry be ctx src w h direction = drawSymmetry be (createCanvas be w h) src w h direction"
proof -
  have a: "clearRect be ctx 0 0 (int w) (int h) = createCanvas be w h"
    using assms by (simp add: clearRect_whole createCanvas_def)
  have b: "clearRect be (createCanvas be w h) 0 0 (int w) (int h) = createCanvas be w h"
    by (simp add: clearRect_whole createCanvas_def)
  show ?thesis by (simp add: drawSymmetry_def a b)
qed

text \<open>
  The pixel at column \<open>c\<close> of a row mirrored to the left: the base half painted on the
  cleared canvas, and on the columns from \<open>w - ceil(w / 2)\<close> on, the pixel of the mirrored
  column painted over it.
\<close>

lemma drawSymmetry_Left_cell:
  assumes ctx: "s_width ctx = w" "length (pixels ctx) = w * h"
    and src: "s_width src = w" "s_height src = h"
    and c: "c < w" and y: "y < h"
  shows "pixelAt (drawSymmetry be ctx src w h Left) c y =
     (let base = (if c < ceilHalf w then over be (pixelAt src c y) (transparent be)
                  else transparent be)
      in if w - ceilHalf w \<le> c then over be (pixelAt src (w - 1 - c) y) base else base)"
proof -
  let ?b = "int (ceilHalf w)"
  let ?c0 = "ctx\<lparr>pixels := replicate (w * h) (transparent be)\<rparr>"
  let ?c1 = "drawImage be ?c0 src 0 0 ?b (int h) 0 0 ?b (int h)"
  let ?c2 = "drawImage be ?c1 src 0 0 ?b (int h) (int w) 0 (- ?b) (int h)"
  have ds: "drawSymmetry be ctx src w h Left = ?c2"
    by (simp add: drawSymmetry_def clearRect_whole[OF ctx] Let_def)
  have bpos: "0 < ?b" and hpos: "0 < int h" using c y by (simp_all add: ceilHalf_def)
  have ble: "ceilHalf w \<le> w" using c by (simp add: ceilHalf_def)
  have il: "y * w + c < w * h" using cell_less[OF c y] .
  have p0: "pixelAt ?c0 c y = transparent be" using il by (simp add: pixelAt_def ctx)
  have p1: "pixelAt ?c1 c y =
      (if c < ceilHalf w then over be (pixelAt src c y) (transparent be) else transparent be)"
  proof -
    have "pixelAt ?c1 c y =
      (let u = sample 0 ?b 0 ?b (int c); v = sample 0 (int h) 0 (int h) (int y)
       in if inSpan 0 ?b (int c) \<and> inSpan 0 (int h) (int y) \<and>
            0 \<le> u \<and> u < int (s_width src) \<and> 0 \<le> v \<and> v < int (s_height src)
         then over be (pixelAt src (nat u) (nat v)) (pixelAt ?c0 c y)
         else pixelAt ?c0 c y)"
      using bpos hpos c il by (intro drawImage_cell) (simp_all add: ctx)
    then show ?thesis
      using bpos hpos c y ble p0
      by (simp add: sample_same inSpan_pos src Let_def)
  qed
  have p2: "pixelAt ?c2 c y =
      (if w - ceilHalf w \<le> c then over be (pixelAt src (w - 1 - c) y) (pixelAt ?c1 c y)
       else pixelAt ?c1 c y)"
  proof -
    have "pixelAt ?c2 c y =
      (let u = sample 0 ?b (int w) (- ?b) (int c); v = sample 0 (int h) 0 (int h) (int y)
       in if inSpan (int w) (- ?b) (int c) \<and> inSpan 0 (int h) (int y) \<and>
            0 \<le> u \<and> u < int (s_width src) \<and> 0 \<le> v \<and> v < int (s_height src)
         then over be (pixelAt src (nat u) (nat v)) (pixelAt ?c1 c y)
         else pixelAt ?c1 c y)"
      using bpos hpos c il by (intro drawImage_cell) (simp_all add: ctx drawImage_shape)
    moreover have "nat (int w - 1 - int c) = w - 1 - c" using c by simp
    moreover have "(int w - ?b \<le> int c) = (w - ceilHalf w \<le> c)" using ble by auto
    ultimately show ?thesis
      using bpos hpos c y
      by (simp add: sample_same sample_flip inSpan_pos inSpan_neg src Let_def)
  qed
  show ?thesis unfolding ds p2 p1 by (simp add: Let_def)
qed

section \<open>The odd-width seam\<close>

text \<open>
  Claim C5, as the spec states it: mirroring the row \<open>[A, B, C]\<close> to the left gives a row
  whose columns 1 and 2 both derive from \<open>B\<close>. With opaque pixels \<open>A = 1\<close>, \<open>B = 2\<close>,
  \<open>C = 3\<close> the result is \<open>[1, 2, 1]\<close>: column 2 holds \<open>A\<close>.
\<close>

theorem odd_row_mirror_counterexample:
  "pixels row3 = [1, 2, 3] \<and>
   pixels (drawSymmetry opaque (createCanvas opaque 3 1) row3 3 1 Left) = [1, 2, 1] \<and>
   pixelAt (drawSymmetry opaque (createCanvas opaque 3 1) row3 3 1 Left) 2 0 \<noteq> 2"
  by code_simp

text \<open>
  Claim C5, amended: mirroring the 3 x 1 row \<open>[A, B, C]\<close> to the left takes the base
  \<open>[A, B]\<close> (\<open>ceil(3 / 2) = 2\<close>) and gives the row \<open>[A, B, A]\<close>. The flipped copy
  \<open>[B, A]\<close> is drawn unscaled on columns 1 and 2, so the centre column receives \<open>B\<close> twice
  (base and reflection overlap there) and column 2 derives from \<open>A\<close>. Every column is
  painted, \<open>C\<close> and the former content of the destination are not read.
\<close>

theorem odd_row_mirror:
  "pixels (drawSymmetry be \<lparr>s_width = 3, s_height = 1, pixels = [p, q, r]\<rparr>
             \<lparr>s_width = 3, s_height = 1, pixels = [A, B, C]\<rparr> 3 1 Left) =
   [over be A (transparent be), over be B (over be B (transparent be)),
    over be A (transparent be)]"
proof -
  let ?ctx = "\<lparr>s_width = 3, s_height = 1, pixels = [p, q, r]\<rparr>"
  let ?src = "\<lparr>s_width = 3, s_height = 1, pixels = [A, B, C]\<rparr>"
  let ?out = "drawSymmetry be ?ctx ?src 3 1 Left"
  have ctx: "s_width ?ctx = 3" "length (pixels ?ctx) = 3 * 1" by simp_all
  have src: "s_width ?src = 3" "s_height ?src = 1" by simp_all
  have len: "length (pixels ?out) = 3" using drawSymmetry_shape(3)[OF ctx] by simp
  have wd: "s_width ?out = 3" using drawSymmetry_shape(1)[OF ctx] by simp
  have ch: "ceilHalf 3 = 2" by (simp add: ceilHalf_def)
  have c0: "pixels ?out ! 0 = over be A (transparent be)"
    using drawSymmetry_Left_cell[OF ctx src, of 0 0 be] wd
    by (simp add: pixelAt_def ch Let_def)
  have c1: "pixels ?out ! 1 = over be B (over be B (transparent be))"
    using drawSymmetry_Left_cell[OF ctx src, of 1 0 be] wd
    by (simp add: pixelAt_def ch Let_def)
  have c2: "pixels ?out ! Suc (Suc 0) = over be A (transparent be)"
    using drawSymmetry_Left_cell[OF ctx src, of 2 0 be] wd
    by (simp add: pixelAt_def ch Let_def)
  have "pixels ?out = [pixels ?out ! 0, pixels ?out ! 1, pixels ?out ! Suc (Suc 0)]"
    using len by (intro nth_equalityI) (auto simp: less_Suc_eq numeral_3_eq_3)
  then show ?thesis unfolding c0 c1 c2 .
qed

section \<open>The reflection law\<close>

text \<open>
  Claim C6: for a source and a destination of \<open>w\<close> by \<open>h\<close> pixels, the row mirrored to the
  left satisfies \<open>output(w - 1 - x, y) = output(x, y)\<close> for every \<open>x < ceil(w / 2)\<close> and
  every \<open>y < h\<close>.
\<close>

theorem mirror_reflection_law:
  assumes ctx: "s_width ctx = w" "length (pixels ctx) = w * h"
    and src: "s_width src = w" "s_height src = h"
    and x: "x < ceilHalf w" and y: "y < h"
  shows "pixelAt (drawSymmetry be ctx src w h Left) (w - 1 - x) y =
         pixelAt (drawSymmetry be ctx src w h Left) x y"
proof -
  have xw: "x < w" using x by (simp add: ceilHalf_def)
  have mw: "w - 1 - x < w" using xw by simp
  show ?thesis
  proof (cases "w - ceilHalf w \<le> x")
    case True
    then have "w - 1 - x = x" using x by (simp add: ceilHalf_def)
    then show ?thesis by simp
  next
    case False
    then have a: "\<not> w - 1 - x < ceilHalf w" "w - ceilHalf w \<le> w - 1 - x" "w - 1 - (w - 1 - x) = x"
      using x xw by (simp_all add: ceilHalf_def)
    show ?thesis
      unfolding drawSymmetry_Left_cell[OF ctx src mw y] drawSymmetry_Left_cell[OF ctx src xw y]
      using False a x by (simp add: Let_def)
  qed
qed

theorem mirror_reflection_law_witness:
  "s_width (createCanvas opaque 3 3) = 3 \<and> length (pixels (createCanvas opaque 3 3)) = 3 * 3 \<and>
   s_width grid = 3 \<and> s_height grid = 3 \<and> 0 < ceilHalf 3 \<and> (1::nat) < 3 \<and>
   pixelAt (drawSymmetry opaque (createCanvas opaque 3 3) grid 3 3 Left) (3 - 1 - 0) 1 =
   pixelAt (drawSymmetry opaque (createCanvas opaque 3 3) grid 3 3 Left) 0 1 \<and>
   pixelAt (drawSymmetry opaque (createCanvas opaque 3 3) grid 3 3 Left) 0 1 = 4"
proof -
  have a: "s_width (createCanvas opaque 3 3) = 3" by code_simp
  have b: "length (pixels (createCanvas opaque 3 3)) = 3 * 3" by code_simp
  have c: "s_width grid = 3" "s_height grid = 3" by code_simp+
  have d: "0 < ceilHalf 3" "(1::nat) < 3" by code_simp+
  have e: "pixelAt (drawSymmetry opaque (createCanvas opaque 3 3) grid 3 3 Left) 0 1 = 4"
    by code_simp
  show ?thesis
    using a b c d e mirror_reflection_law[OF a b c d, of opaque] by simp
qed

section \<open>Encoding the animation\<close>

lemma encodeLoop_written:
  assumes "framesSized (w * h * 4) ffs"
    and "length (imageData st) = w * h * 4"
    and "s_width (outputCanvas st) = w" "s_height (outputCanvas st) = h"
      "length (pixels (outputCanvas st)) = w * h"
    and "s_width (frameCanvas st) = w" "s_height (frameCanvas st) = h"
  shows "\<exists>st'. encodeLoop be w h direction st ffs = Inr st' \<and>
           written (encoder st') = written (encoder st) @ map (mirroredFrame be w h direction) ffs"
  using assms
proof (induction ffs arbitrary: st)
  case Nil
  then show ?case by simp
next
  case (Cons ff ffs)
  have sz: "length (data ff) = w * h * 4" "framesSized (w * h * 4) ffs"
    using Cons.prems(1) by (simp_all add: framesSized_def)
  have img: "ta_set (imageData st) (data ff) 0 = Inr (data ff)"
    using sz(1) Cons.prems(2) by (simp add: ta_set_whole)
  let ?fc = "putImageData (frameCanvas st) (data ff)"
  let ?oc = "drawSymmetry be (outputCanvas st) ?fc w h direction"
  let ?enc = "addFrame (setDelay (encoder st) (delayMs (fdelay ff))) ?oc"
  let ?st1 = "\<lparr>imageData = data ff, frameCanvas = ?fc, outputCanvas = ?oc, encoder = ?enc\<rparr>"
  have step: "encodeFrame be w h direction st ff = Inr ?st1"
    using img by (simp add: encodeFrame_def Let_def)
  have fc: "?fc = \<lparr>s_width = w, s_height = h, pixels = rgba (data ff)\<rparr>"
    using Cons.prems(6,7) by (simp add: putImageData_def)
  have oc: "drawSymmetry be (outputCanvas st) src w h direction =
      drawSymmetry be (createCanvas be w h) src w h direction" for src
    using drawSymmetry_fresh[OF Cons.prems(3,4,5)] .
  have ocs: "s_width ?oc = w" "s_height ?oc = h" "length (pixels ?oc) = w * h"
    using drawSymmetry_shape[OF Cons.prems(3,5), of be ?fc direction] Cons.prems(4) by simp_all
  have wr: "written ?enc = written (encoder st) @ [mirroredFrame be w h direction ff]"
    by (simp add: oc fc addFrame_def setDelay_def mirroredFrame_def delayMs_def)
  from Cons.IH[of ?st1] sz(2) ocs fc obtain st' where
    r: "encodeLoop be w h direction ?st1 ffs = Inr st'"
    and w': "written (encoder st') = written (encoder ?st1) @ map (mirroredFrame be w h direction) ffs"
    using sz(1) by auto
  show ?case using step r w' wr by simp
qed

text \<open>
  Claim C7: when the reconstruction succeeds with the frames \<open>ffs\<close>, the writer receives
  exactly one frame for each of them, in the same order: the mirror image of the frame with
  the delay of the frame times ten (hundredths of a second to milliseconds), or zero when
  that is negative.
\<close>

theorem frames_encoded_in_order:
  assumes "buildFullFrames frames w h = Inr ffs"
  shows "\<exists>enc. generateGif be w h frames direction = Inr enc \<and>
           written enc = map (mirroredFrame be w h direction) ffs \<and>
           map snd (written enc) = map (\<lambda>ff. max 0 (fdelay ff * 10)) ffs \<and>
           length (written enc) = length frames"
proof -
  let ?st0 = "\<lparr>imageData = ta_new (w * h * 4), frameCanvas = createCanvas be w h,
     outputCanvas = createCanvas be w h,
     encoder = setQuality (setRepeat (newEncoder w h) 0) 10\<rparr>"
  have sz: "framesSized (w * h * 4) ffs" using buildFullFrames_sized[OF assms] .
  from encodeLoop_written[OF sz, of ?st0 be direction] obtain st' where
    r: "encodeLoop be w h direction ?st0 ffs = Inr st'"
    and w': "written (encoder st') = written (encoder ?st0) @ map (mirroredFrame be w h direction) ffs"
    by (auto simp: ta_new_def createCanvas_def)
  have w0: "written (encoder ?st0) = []"
    by (simp add: setQuality_def setRepeat_def newEncoder_def)
  have gen: "generateGif be w h frames direction = Inr (encoder st')"
    using assms r by (simp add: generateGif_def Let_def)
  have len: "length ffs = length frames"
  proof -
    from assms obtain st where "frameLoop w h (initState w h) frames = Inr st" "ffs = fullFrames st"
      by (auto simp: buildFullFrames_def split: sum.splits)
    then show ?thesis using frameLoop_init_count by simp
  qed
  show ?thesis
    using gen w' w0 len by (simp add: mirroredFrame_def comp_def)
qed

theorem frames_encoded_in_order_witness:
  "buildFullFrames [frameA, frameNeg] 1 1 =
     Inr [\<lparr>data = [1, 1, 1, 255], fdelay = 5\<rparr>, \<lparr>data = [3, 3, 3, 255], fdelay = - 2\<rparr>] \<and>
   (\<exists>enc. generateGif opaqueBytes 1 1 [frameA, frameNeg] Left = Inr enc \<and>
      written enc = [([[1, 1, 1, 255]], 50), ([[3, 3, 3, 255]], 0)] \<and>
      length (written enc) = length [frameA, frameNeg])"
proof -
  have b: "buildFullFrames [frameA, frameNeg] 1 1 =
     Inr [\<lparr>data = [1, 1, 1, 255], fdelay = 5\<rparr>, \<lparr>data = [3, 3, 3, 255], fdelay = - 2\<rparr>]"
    by code_simp
  have m: "map (mirroredFrame opaqueBytes 1 1 Left)
      [\<lparr>data = [1, 1, 1, 255], fdelay = 5\<rparr>, \<lparr>data = [3, 3, 3, 255], fdelay = - 2\<rparr>] =
      [([[1, 1, 1, 255]], 50), ([[3, 3, 3, 255]], 0)]"
    by code_simp
  from frames_encoded_in_order[OF b, of opaqueBytes Left] obtain enc where
    "generateGif opaqueBytes 1 1 [frameA, frameNeg] Left = Inr enc"
    "written enc = map (mirroredFrame opaqueBytes 1 1 Left)
      [\<lparr>data = [1, 1, 1, 255], fdelay = 5\<rparr>, \<lparr>data = [3, 3, 3, 255], fdelay = - 2\<rparr>]"
    "length (written enc) = length [frameA, frameNeg]"
    by blast
  then show ?thesis using b m by auto
qed

section \<open>Validating the static image\<close>

text \<open>
  Claim C9: when the decoded width or height of the image is zero (an absent size counts
  as zero), the static pipeline fails with the invalid-size error after loading, before a
  canvas is created, mirrored or encoded; and whenever the pipeline produces an output, its
  width and height are positive.
\<close>

theorem static_pipeline_validation:
  "(decodedWidth im = 0 \<or> decodedHeight im = 0 \<longrightarrow>
      generateStatic be (Inr im) direction = ([LoadImage], Inl InvalidImageSize)) \<and>
   (generateStatic be loaded direction = (calls, Inr out) \<longrightarrow>
      0 < s_width out \<and> 0 < s_height out \<and> length (pixels out) = s_width out * s_height out)"
proof (intro conjI impI)
  assume "decodedWidth im = 0 \<or> decodedHeight im = 0"
  then show "generateStatic be (Inr im) direction = ([LoadImage], Inl InvalidImageSize)"
    by (auto simp: generateStatic_def getImageSize_def Let_def)
next
  assume a: "generateStatic be loaded direction = (calls, Inr out)"
  then obtain im w h where lo: "loaded = Inr im" and sz: "getImageSize im = Inr (w, h)"
    and out: "out = drawSymmetry be (createCanvas be w h) (bitmap im) w h direction"
    by (auto simp: generateStatic_def Let_def split: sum.splits prod.splits)
  have pos: "0 < w" "0 < h" using sz by (auto simp: getImageSize_def Let_def split: if_splits)
  have cs: "s_width (createCanvas be w h) = w" "length (pixels (createCanvas be w h)) = w * h"
    "s_height (createCanvas be w h) = h"
    by (simp_all add: createCanvas_def)
  show "0 < s_width out" "0 < s_height out" "length (pixels out) = s_width out * s_height out"
    using drawSymmetry_shape[OF cs(1,2), of be "bitmap im" direction] cs(3) pos out by simp_all
qed

theorem static_pipeline_validation_witness:
  "decodedWidth imageZero = 0 \<and>
   generateStatic opaque (Inr imageZero) Left = ([LoadImage], Inl InvalidImageSize) \<and>
   decodedHeight imageNoSize = 3 \<and> decodedWidth imageNoSize = 0 \<and>
   generateStatic opaque (Inr imageNoSize) Left = ([LoadImage], Inl InvalidImageSize) \<and>
   generateStatic opaque (Inr imageRow) Left =
     ([LoadImage, CreateCanvas 3 1, DrawSymmetry Left, ToBuffer],
      Inr \<lparr>s_width = 3, s_height = 1, pixels = [1, 2, 1]\<rparr>) \<and>
   0 < s_width \<lparr>s_width = 3, s_height = 1, pixels = [1, 2, 1 :: nat]\<rparr> \<and>
   0 < s_height \<lparr>s_width = 3, s_height = 1, pixels = [1, 2, 1 :: nat]\<rparr>"
proof -
  have z: "decodedWidth imageZero = 0" by code_simp
  have n: "decodedHeight imageNoSize = 3" "decodedWidth imageNoSize = 0" by code_simp+
  have r: "generateStatic opaque (Inr imageRow) Left =
     ([LoadImage, CreateCanvas 3 1, DrawSymmetry Left, ToBuffer],
      Inr \<lparr>s_width = 3, s_height = 1, pixels = [1, 2, 1]\<rparr>)"
    by code_simp
  have a: "generateStatic opaque (Inr imageZero) Left = ([LoadImage], Inl InvalidImageSize)"
    using static_pipeline_validation[of imageZero opaque Left] z by blast
  have b: "generateStatic opaque (Inr imageNoSize) Left = ([LoadImage], Inl InvalidImageSize)"
    using static_pipeline_validation[of imageNoSize opaque Left] n by blast
  have c: "0 < s_width \<lparr>s_width = 3, s_height = 1, pixels = [1, 2, 1 :: nat]\<rparr> \<and>
           0 < s_height \<lparr>s_width = 3, s_height = 1, pixels = [1, 2, 1 :: nat]\<rparr>"
    using static_pipeline_validation[of imageRow opaque Left "Inr imageRow"
        "[LoadImage, CreateCanvas 3 1, DrawSymmetry Left, ToBuffer]"
        "\<lparr>s_width = 3, s_height = 1, pixels = [1, 2, 1]\<rparr>"] r
    by blast
  show ?thesis using z n r a b c by (intro conjI) simp_all
qed

end
